theory Spec2Isabelle
  imports Complex_Main
begin

section \<open>JavaScript numbers and the conversions the code relies on\<close>

text \<open>
  A JavaScript number is \<open>NaN\<close>, an infinity or a finite double, kept here as the rational
  it denotes (the two zeros are one value; the code only compares). The comparisons below
  are those of the language: every comparison with \<open>NaN\<close> is false.
\<close>

datatype jsnum = NaN | NegInf | Fin rat | PosInf

fun num_lt :: "jsnum \<Rightarrow> jsnum \<Rightarrow> bool" where
  "num_lt NaN y = False"
| "num_lt x NaN = False"
| "num_lt (Fin p) (Fin q) = (p < q)"
| "num_lt NegInf NegInf = False"
| "num_lt NegInf y = True"
| "num_lt x NegInf = False"
| "num_lt PosInf y = False"
| "num_lt x PosInf = True"

definition num_gt :: "jsnum \<Rightarrow> jsnum \<Rightarrow> bool" where
  "num_gt x y = num_lt y x"

fun num_neg :: "jsnum \<Rightarrow> jsnum" where
  "num_neg NaN = NaN"
| "num_neg NegInf = PosInf"
| "num_neg (Fin q) = Fin (- q)"
| "num_neg PosInf = NegInf"

text \<open>
  Strings are lists of 8-bit characters, the code units below 256. The white space and line
  terminators of the language among them, which \<open>Number\<close> and \<open>parseInt\<close> strip, are TAB,
  LF, VT, FF, CR, SPACE and the no-break space (160).
\<close>

definition isStrWhiteSpace :: "char \<Rightarrow> bool" where
  "isStrWhiteSpace c = (of_char c \<in> {9, 10, 11, 12, 13, 32, 160 :: nat})"

definition trimStart :: "string \<Rightarrow> string" where
  "trimStart s = dropWhile isStrWhiteSpace s"

definition trim :: "string \<Rightarrow> string" where
  "trim s = rev (trimStart (rev (trimStart s)))"

definition digitVal :: "char \<Rightarrow> nat option" where
  "digitVal c =
     (let n = (of_char c :: nat) in
      if 48 \<le> n \<and> n \<le> 57 then Some (n - 48)
      else if 97 \<le> n \<and> n \<le> 122 then Some (n - 87)
      else if 65 \<le> n \<and> n \<le> 90 then Some (n - 55)
      else None)"

definition isDecimalDigit :: "char \<Rightarrow> bool" where
  "isDecimalDigit c = (48 \<le> (of_char c :: nat) \<and> (of_char c :: nat) \<le> 57)"

fun digitsVal :: "nat \<Rightarrow> nat \<Rightarrow> string \<Rightarrow> nat option" where
  "digitsVal r acc [] = Some acc"
| "digitsVal r acc (c # cs) =
     (case digitVal c of
        None \<Rightarrow> None
      | Some d \<Rightarrow> if d < r then digitsVal r (acc * r + d) cs else None)"

text \<open>The same reading with the value as an integer, for the literals of \<open>Number\<close>.\<close>

fun digitsInt :: "int \<Rightarrow> int \<Rightarrow> string \<Rightarrow> int option" where
  "digitsInt r acc [] = Some acc"
| "digitsInt r acc (c # cs) =
     (case digitVal c of
        None \<Rightarrow> None
      | Some d \<Rightarrow> if int d < r then digitsInt r (acc * r + int d) cs else None)"

text \<open>A non-empty run of digits of radix \<open>r\<close>, and nothing else.\<close>

definition parseDigits :: "nat \<Rightarrow> string \<Rightarrow> nat option" where
  "parseDigits r s = (if s = [] then None else digitsVal r 0 s)"

text \<open>The exponent part of a decimal literal: empty, or \<open>e\<close>/\<open>E\<close>, an optional sign, digits.\<close>

definition exponentPart :: "string \<Rightarrow> int option" where
  "exponentPart s =
     (case s of
        [] \<Rightarrow> Some 0
      | c # ex \<Rightarrow>
          if c = CHR ''e'' \<or> c = CHR ''E'' then
            (case ex of
               [] \<Rightarrow> None
             | d # ds \<Rightarrow>
                 if d = CHR ''+'' then map_option int (parseDigits 10 ds)
                 else if d = CHR ''-'' then map_option (\<lambda>n. - int n) (parseDigits 10 ds)
                 else map_option int (parseDigits 10 ex))
          else None)"

definition pow10 :: "int \<Rightarrow> rat" where
  "pow10 e = (if 0 \<le> e then 10 ^ nat e else 1 / 10 ^ nat (- e))"

text \<open>
  The value of a literal is rounded to the nearest double, ties to the even significand:
  53 significant bits, the least unit \<open>2^-1074\<close>, and \<open>Infinity\<close> from \<open>2^1024\<close> on.
  \<open>floor_log2 q\<close> is the exponent \<open>e\<close> with \<open>2^e \<le> q < 2^(e+1)\<close>, found from the bit
  lengths of numerator and denominator. The rounded significand is at most \<open>2^53\<close>, so
  the result reaches \<open>2^1024\<close> exactly when \<open>e = 1023\<close> and the significand is \<open>2^53\<close>.
\<close>

definition pow2 :: "int \<Rightarrow> rat" where
  "pow2 e = (if 0 \<le> e then 2 ^ nat e else 1 / 2 ^ nat (- e))"

function bit_length :: "int \<Rightarrow> int" where
  "bit_length n = (if n \<le> 0 then 0 else 1 + bit_length (n div 2))"
  by pat_completeness auto
termination
  by (relation "measure nat") auto

declare bit_length.simps [simp del]

definition floor_log2 :: "rat \<Rightarrow> int" where
  "floor_log2 q =
     (let (a, b) = quotient_of q;
          e = bit_length a - bit_length b
      in if pow2 e \<le> q then e else e - 1)"

definition round_half_even :: "rat \<Rightarrow> int" where
  "round_half_even q =
     (let f = \<lfloor>q\<rfloor>; r = q - of_int f in
      if r < 1 / 2 then f
      else if 1 / 2 < r then f + 1
      else if even f then f
      else f + 1)"

definition to_double :: "rat \<Rightarrow> jsnum" where
  "to_double q =
     (if q \<le> 0 then Fin 0
      else
        let e = floor_log2 q in
        if 1024 \<le> e then PosInf
        else
          let p = max (e - 52) (- 1074);
              n = round_half_even (q / pow2 p)
          in if e = 1023 \<and> n = 2 ^ 53 then PosInf else Fin (of_int n * pow2 p))"

text \<open>
  \<open>StrUnsignedDecimalLiteral\<close>: \<open>Infinity\<close>, or digits with an optional fraction and an
  optional exponent, where the integer part or the fraction may be missing but not both.
\<close>

definition unsignedDecimal :: "string \<Rightarrow> jsnum" where
  "unsignedDecimal s =
     (if s = ''Infinity'' then PosInf
      else
        let ip = takeWhile isDecimalDigit s;
            r1 = dropWhile isDecimalDigit s;
            dot = (r1 \<noteq> [] \<and> hd r1 = CHR ''.'');
            fp = (if dot then takeWhile isDecimalDigit (tl r1) else []);
            r2 = (if dot then dropWhile isDecimalDigit (tl r1) else r1)
        in
          if ip = [] \<and> fp = [] then NaN
          else
            (case (digitsInt 10 0 ip, digitsInt 10 0 fp, exponentPart r2) of
               (Some iv, Some fv, Some e) \<Rightarrow>
                 to_double ((of_int iv + of_int fv / 10 ^ length fp) * pow10 e)
             | _ \<Rightarrow> NaN))"

definition nonDecimal :: "int \<Rightarrow> string \<Rightarrow> jsnum" where
  "nonDecimal r s =
     (if s = [] then NaN
      else (case digitsInt r 0 s of None \<Rightarrow> NaN | Some v \<Rightarrow> to_double (of_int v)))"

text \<open>
  \<open>Number(s)\<close> on a string (\<open>StringToNumber\<close>): white space is trimmed, the empty string
  is 0, a hexadecimal, octal or binary literal carries no sign, a decimal literal may, and
  anything else is \<open>NaN\<close>. Nothing here throws.
\<close>

definition Number :: "string \<Rightarrow> jsnum" where
  "Number s =
     (let t = trim s in
      if t = [] then Fin 0
      else if take 2 t = ''0x'' \<or> take 2 t = ''0X'' then nonDecimal 16 (drop 2 t)
      else if take 2 t = ''0o'' \<or> take 2 t = ''0O'' then nonDecimal 8 (drop 2 t)
      else if take 2 t = ''0b'' \<or> take 2 t = ''0B'' then nonDecimal 2 (drop 2 t)
      else if hd t = CHR ''+'' then unsignedDecimal (tl t)
      else if hd t = CHR ''-'' then num_neg (unsignedDecimal (tl t))
      else unsignedDecimal t)"

text \<open>\<open>s.split(c)\<close> for a one-character separator: the empty string gives one empty field.\<close>

fun split_on :: "char \<Rightarrow> string \<Rightarrow> string list" where
  "split_on c [] = [[]]"
| "split_on c (x # xs) =
     (if x = c then [] # split_on c xs
      else (case split_on c xs of
              [] \<Rightarrow> [[x]]
            | f # fs \<Rightarrow> (x # f) # fs))"

section \<open>SemverComparator: \<open>compareSemver\<close> of otaConfig.ts\<close>

text \<open>\<open>pa[i] ?? 0\<close>: an index past the end reads \<open>undefined\<close>, which \<open>??\<close> replaces by 0;
  an element that is \<open>NaN\<close> is not nullish and stays.\<close>

definition nth_or_zero :: "jsnum list \<Rightarrow> nat \<Rightarrow> jsnum" where
  "nth_or_zero p i = (if i < length p then p ! i else Fin 0)"

text \<open>The loop \<open>for (let i = 0; i < 3; i++)\<close>, entered at index \<open>i\<close>.\<close>

function compareLoop :: "jsnum list \<Rightarrow> jsnum list \<Rightarrow> nat \<Rightarrow> int" where
  "compareLoop pa pb i =
     (if i < 3 then
        (let va = nth_or_zero pa i; vb = nth_or_zero pb i in
         if num_gt va vb then 1
         else if num_lt va vb then - 1
         else compareLoop pa pb (i + 1))
      else 0)"
  by pat_completeness auto
termination
  by (relation "measure (\<lambda>(pa, pb, i). 3 - i)") auto

declare compareLoop.simps [simp del]

definition compareParts :: "jsnum list \<Rightarrow> jsnum list \<Rightarrow> int" where
  "compareParts pa pb = compareLoop pa pb 0"

definition versionParts :: "string \<Rightarrow> jsnum list" where
  "versionParts a = map Number (split_on CHR ''.'' a)"

definition compareSemver :: "string \<Rightarrow> string \<Rightarrow> int" where
  "compareSemver a b = compareParts (versionParts a) (versionParts b)"

text \<open>The value the loop reads for component \<open>i\<close> of a version string.\<close>

definition component :: "string \<Rightarrow> nat \<Rightarrow> jsnum" where
  "component a i = nth_or_zero (versionParts a) i"

text \<open>The outcome of one loop iteration: 1, -1, or 0 when the loop moves on.\<close>

definition cmp_component :: "jsnum \<Rightarrow> jsnum \<Rightarrow> int" where
  "cmp_component x y = (if num_gt x y then 1 else if num_lt x y then - 1 else 0)"

section \<open>The persisted update state: \<open>localStorage\<close> as the shell and the app share it\<close>

text \<open>
  \<open>localStorage\<close> maps keys to strings. The source wraps every access in \<open>try\<close>/\<open>catch\<close>:
  a store that cannot be accessed (\<open>accessible = False\<close>) throws on every access, one that
  can be accessed performs every read and write. \<open>writes\<close> is the trace of the writes and
  removals performed, in order; it is what "written together" is stated on.
\<close>

datatype ls_op = SetItem string string | RemoveItem string

record storage =
  items :: "string \<rightharpoonup> string"
  accessible :: bool
  writes :: "ls_op list"

definition getItem :: "storage \<Rightarrow> string \<Rightarrow> string option" where
  "getItem st k = items st k"

definition setItem :: "storage \<Rightarrow> string \<Rightarrow> string \<Rightarrow> storage" where
  "setItem st k v = st\<lparr>items := (items st)(k \<mapsto> v), writes := writes st @ [SetItem k v]\<rparr>"

definition removeItem :: "storage \<Rightarrow> string \<Rightarrow> storage" where
  "removeItem st k = st\<lparr>items := (items st)(k := None), writes := writes st @ [RemoveItem k]\<rparr>"

fun op_key :: "ls_op \<Rightarrow> string" where
  "op_key (SetItem k v) = k"
| "op_key (RemoveItem k) = k"

text \<open>Whether a trace of writes touches a key.\<close>

definition touches :: "ls_op list \<Rightarrow> string \<Rightarrow> bool" where
  "touches ops k = (k \<in> set (map op_key ops))"

definition OTA_USE_REMOTE :: string where "OTA_USE_REMOTE = ''daybound_ota_use_remote''"
definition OTA_REMOTE_VER :: string where "OTA_REMOTE_VER = ''daybound_ota_remote_version''"
definition OTA_FAIL_COUNT :: string where "OTA_FAIL_COUNT = ''daybound_ota_fail_count''"
definition OTA_FAIL_TS :: string where "OTA_FAIL_TS = ''daybound_ota_fail_ts''"
definition REMOTE_APP_URL :: string where "REMOTE_APP_URL = ''https://app.daybound.com''"
definition BUNDLED_VERSION :: string where "BUNDLED_VERSION = ''1.0.0''"
definition MAX_FAILURES :: int where "MAX_FAILURES = 3"
definition BACKOFF_MS :: int where "BACKOFF_MS = 5 * 60 * 1000"

text \<open>
  \<open>parseInt(s, 10)\<close>: leading white space and one sign are skipped, the longest run of
  decimal digits is read, and no digit at all gives \<open>NaN\<close>, here \<open>None\<close>. The result is an
  integer, and it and the sums and differences of such integers are kept exact: that is
  the language's value up to \<open>2^53\<close>, far above the counters and \<open>Date.now()\<close>.
  Arithmetic and comparisons follow the language: \<open>NaN\<close> propagates through \<open>+\<close> and \<open>-\<close>
  and makes every comparison false.
\<close>

definition parseInt10 :: "string \<Rightarrow> int option" where
  "parseInt10 s =
     (let t = trimStart s;
          neg = (t \<noteq> [] \<and> hd t = CHR ''-'');
          u = (if t \<noteq> [] \<and> (hd t = CHR ''-'' \<or> hd t = CHR ''+'') then tl t else t)
      in case parseDigits 10 (takeWhile isDecimalDigit u) of
           None \<Rightarrow> None
         | Some n \<Rightarrow> Some (if neg then - int n else int n))"

definition nan_lt :: "int option \<Rightarrow> int option \<Rightarrow> bool" where
  "nan_lt x y = (case (x, y) of (Some a, Some b) \<Rightarrow> a < b | _ \<Rightarrow> False)"

definition nan_gt :: "int option \<Rightarrow> int option \<Rightarrow> bool" where
  "nan_gt x y = nan_lt y x"

definition nan_add :: "int option \<Rightarrow> int option \<Rightarrow> int option" where
  "nan_add x y = (case (x, y) of (Some a, Some b) \<Rightarrow> Some (a + b) | _ \<Rightarrow> None)"

definition nan_sub :: "int option \<Rightarrow> int option \<Rightarrow> int option" where
  "nan_sub x y = (case (x, y) of (Some a, Some b) \<Rightarrow> Some (a - b) | _ \<Rightarrow> None)"

text \<open>\<open>String(n)\<close> for an integer or \<open>NaN\<close>: the decimal digits, with a minus sign
  (the form the language uses below \<open>10^21\<close>; the counters and \<open>Date.now()\<close> are far
  below).\<close>

definition digit_char :: "nat \<Rightarrow> char" where
  "digit_char d = char_of (48 + d)"

function digits10 :: "nat \<Rightarrow> string" where
  "digits10 n = (if n < 10 then [digit_char n] else digits10 (n div 10) @ [digit_char (n mod 10)])"
  by pat_completeness auto
termination
  by (relation "measure id") auto

declare digits10.simps [simp del]

definition String_num :: "int option \<Rightarrow> string" where
  "String_num x =
     (case x of
        None \<Rightarrow> ''NaN''
      | Some n \<Rightarrow> if n < 0 then CHR ''-'' # digits10 (nat (- n)) else digits10 (nat n))"

text \<open>\<open>localStorage.getItem(k) || d\<close>: an absent key and the empty string both give \<open>d\<close>.\<close>

definition getItem_or :: "storage \<Rightarrow> string \<Rightarrow> string \<Rightarrow> string" where
  "getItem_or st k d = (case getItem st k of None \<Rightarrow> d | Some v \<Rightarrow> if v = [] then d else v)"

text \<open>The two counters as the code reads them.\<close>

definition failCount :: "storage \<Rightarrow> int option" where
  "failCount st = parseInt10 (getItem_or st OTA_FAIL_COUNT ''0'')"

definition failTimestamp :: "storage \<Rightarrow> int option" where
  "failTimestamp st = parseInt10 (getItem_or st OTA_FAIL_TS ''0'')"

section \<open>BackoffTracker: \<open>isInBackoff\<close>, \<open>recordFailure\<close>, \<open>clearFailures\<close> of the shell\<close>

text \<open>\<open>now\<close> is the value of \<open>Date.now()\<close> at the call. The result is the returned
  boolean and the store afterwards.\<close>

definition isInBackoff :: "storage \<Rightarrow> int \<Rightarrow> bool \<times> storage" where
  "isInBackoff st now =
     (if \<not> accessible st then (False, st)
      else
        let count = failCount st in
        if nan_lt count (Some MAX_FAILURES) then (False, st)
        else
          let ts = failTimestamp st in
          if nan_gt (nan_sub (Some now) ts) (Some BACKOFF_MS)
          then (False, setItem st OTA_FAIL_COUNT ''0'')
          else (True, st))"

definition recordFailure :: "storage \<Rightarrow> int \<Rightarrow> storage" where
  "recordFailure st now =
     (if \<not> accessible st then st
      else
        let c = failCount st;
            st1 = setItem st OTA_FAIL_COUNT (String_num (nan_add c (Some 1)))
        in setItem st1 OTA_FAIL_TS (String_num (Some now)))"

definition clearFailures :: "storage \<Rightarrow> storage" where
  "clearFailures st =
     (if \<not> accessible st then st
      else removeItem (removeItem st OTA_FAIL_COUNT) OTA_FAIL_TS)"

section \<open>ShellRouter: the routing decision and \<open>settle\<close>\<close>

text \<open>
  The page of the shell: the store, where the window is (the shell page itself, or the
  bundled entry point after \<open>window.location.replace("index.html")\<close>), the frame's source,
  the latch \<open>settled\<close>, whether the 800 ms timer is armed, whether the spinner is hidden,
  and whether the bridge host listens for messages. The page shell.html carries the frame
  \<open>app-frame\<close> and the spinner \<open>shell-loader\<close> that the script looks up.
\<close>

datatype page = ShellPage | BundledApp

datatype route = FastPath | RemotePath

record shell =
  ls :: storage
  location :: page
  frame_src :: "string option"
  settled :: bool
  timer :: bool
  loader_hidden :: bool
  hosting :: bool

definition goToBundled :: "shell \<Rightarrow> shell" where
  "goToBundled sh = sh\<lparr>location := BundledApp\<rparr>"

text \<open>\<open>useRemote\<close>: \<open>localStorage.getItem(OTA_USE_REMOTE) === "true"\<close>, and \<open>false\<close> when the
  access throws.\<close>

definition useRemote :: "storage \<Rightarrow> bool" where
  "useRemote st = (accessible st \<and> getItem st OTA_USE_REMOTE = Some ''true'')"

text \<open>\<open>navigator.onLine !== false\<close>; the property is a boolean or undefined (\<open>None\<close>).\<close>

definition isOnline :: "bool option \<Rightarrow> bool" where
  "isOnline onLine = (onLine \<noteq> Some False)"

text \<open>
  The decision at the top level of the script. \<open>||\<close> evaluates from the left and stops at
  the first true operand, so \<open>isInBackoff\<close> runs (and may write) only when the flag is set
  and the browser is on line.
\<close>

definition shell_main :: "shell \<Rightarrow> bool option \<Rightarrow> int \<Rightarrow> route \<times> shell" where
  "shell_main sh onLine now =
     (if \<not> useRemote (ls sh) \<or> \<not> isOnline onLine then (FastPath, goToBundled sh)
      else
        let (blocked, st) = isInBackoff (ls sh) now in
        if blocked then (FastPath, goToBundled (sh\<lparr>ls := st\<rparr>))
        else (RemotePath,
              sh\<lparr>ls := st, settled := False, timer := True,
                 frame_src := Some REMOTE_APP_URL, hosting := True\<rparr>))"

definition settle :: "bool \<Rightarrow> shell \<Rightarrow> int \<Rightarrow> shell" where
  "settle success sh now =
     (if settled sh then sh
      else
        let sh1 = sh\<lparr>settled := True, timer := False\<rparr> in
        if success then sh1\<lparr>ls := clearFailures (ls sh1), loader_hidden := True\<rparr>
        else
          let st1 = recordFailure (ls sh1) now;
              st2 = (if accessible st1 then removeItem st1 OTA_USE_REMOTE else st1)
          in goToBundled (sh1\<lparr>ls := st2\<rparr>))"

text \<open>The three signals, each at a time \<open>now\<close>. A timer that was cleared does not fire.\<close>

datatype frame_signal = FrameLoad | FrameError | TimerFired

fun on_signal :: "shell \<Rightarrow> frame_signal \<times> int \<Rightarrow> shell" where
  "on_signal sh (FrameLoad, now) = settle True sh now"
| "on_signal sh (FrameError, now) = settle False sh now"
| "on_signal sh (TimerFired, now) = (if timer sh then settle False sh now else sh)"

definition run_signals :: "shell \<Rightarrow> (frame_signal \<times> int) list \<Rightarrow> shell" where
  "run_signals sh evs = foldl on_signal sh evs"

section \<open>VersionChecker: \<open>runCheck\<close> of OtaUpdater.tsx\<close>

text \<open>
  What the fetch of the manifest gives: a failure (network error, timeout, a response that
  is not ok, a body that is not JSON), or the \<open>version\<close> field of the parsed body, which
  is a string or not. \<open>precached\<close> is the result of \<open>precacheRemoteApp\<close>. The whole
  body runs under one \<open>try\<close>/\<open>catch\<close>, and only \<open>localStorage\<close> is changed.
\<close>

datatype manifest = FetchFailed | VersionString string | VersionOther

definition runCheck :: "storage \<Rightarrow> manifest \<Rightarrow> bool \<Rightarrow> storage" where
  "runCheck st m precached =
     (case m of
        FetchFailed \<Rightarrow> st
      | VersionOther \<Rightarrow> st
      | VersionString version \<Rightarrow>
          if version = [] then st
          else if compareSemver version BUNDLED_VERSION \<le> 0 then
            (if accessible st then removeItem st OTA_USE_REMOTE else st)
          else if \<not> accessible st then st
          else if getItem st OTA_REMOTE_VER = Some version then setItem st OTA_USE_REMOTE ''true''
          else if precached then
            removeItem
              (removeItem
                 (setItem (setItem st OTA_USE_REMOTE ''true'') OTA_REMOTE_VER version)
                 OTA_FAIL_COUNT)
              OTA_FAIL_TS
          else st)"


section \<open>The storage bridge: messages across the frame boundary\<close>

text \<open>
  A JavaScript value that is stored or sent is \<open>null\<close> (\<open>None\<close>) or a value of the type
  parameter \<open>'v\<close>. A payload (\<open>Record<string, unknown>\<close>) is a list of key/value pairs in
  the order of its keys; reading a key that is missing, or that holds \<open>null\<close>, and applying
  \<open>?? null\<close> gives \<open>null\<close>.
\<close>

type_synonym 'v payload = "(string \<times> 'v option) list"


text \<open>
  The data of a message event, by its \<open>type\<close> tag. \<open>NotAMessage\<close> is data that is falsy or
  has no string \<open>type\<close>, \<open>OtherType\<close> any other tag. An \<open>id\<close> that is missing or is not a
  string is \<open>None\<close>; missing \<open>keys\<close> or \<open>data\<close> are the empty list.
\<close>

datatype 'v bridge_msg =
    NotAMessage
  | IframeReady
  | BridgeReady
  | StorageGet "string option" "string list"
  | StorageSet "string option" "'v payload"
  | StorageResult "string option" "'v payload"
  | StorageSetAck "string option"
  | StorageChanged "(string \<times> 'v option \<times> 'v option) list"
  | OtherType string

text \<open>The windows a message can come from, and the event as the listener sees it.\<close>

datatype window_ref = ShellWindow | FrameContent | OtherWindow nat

record 'v message_event =
  ev_source :: window_ref
  ev_origin :: string
  ev_data :: "'v bridge_msg"

section \<open>StorageBridgeClient (storageBridge.ts), running in the frame\<close>

text \<open>
  A pending continuation resolves the promise of one call of \<open>get\<close> or \<open>set\<close>; the number
  names the call. \<open>get\<close>'s continuation passes the data on, \<open>set\<close>'s is \<open>() => resolve()\<close>
  and drops it. \<open>resolutions\<close> lists the promises resolved, in order, with their values;
  \<open>posted\<close> the messages sent to the parent; \<open>notified\<close> the calls of change listeners.
\<close>

datatype cont = GetCall nat | SetCall nat

datatype 'v resolution = GotData "'v payload" | SetDone

fun resolve_with :: "cont \<Rightarrow> 'v payload \<Rightarrow> nat \<times> 'v resolution" where
  "resolve_with (GetCall h) d = (h, GotData d)"
| "resolve_with (SetCall h) d = (h, SetDone)"

record 'v client =
  pending :: "string \<rightharpoonup> cont"
  ready :: bool
  readyPromise :: bool
  changeListeners :: "nat list"
  listening :: bool
  resolutions :: "(nat \<times> 'v resolution) list"
  posted :: "'v bridge_msg list"
  notified :: "(nat \<times> (string \<times> 'v option \<times> 'v option) list) list"

text \<open>The constructor: the listener is registered and the presence is announced.\<close>

definition new_client :: "'v client" where
  "new_client =
     \<lparr>pending = Map.empty, ready = False, readyPromise = False, changeListeners = [],
      listening = True, resolutions = [], posted = [IframeReady], notified = []\<rparr>"

text \<open>\<open>get\<close> and \<open>set\<close>; \<open>id\<close> is what \<open>crypto.randomUUID()\<close> returned, \<open>h\<close> names the call.\<close>

definition client_get :: "'v client \<Rightarrow> string \<Rightarrow> string list \<Rightarrow> nat \<Rightarrow> 'v client" where
  "client_get c i keys h =
     c\<lparr>pending := (pending c)(i \<mapsto> GetCall h),
       posted := posted c @ [StorageGet (Some i) keys]\<rparr>"

definition client_set :: "'v client \<Rightarrow> string \<Rightarrow> 'v payload \<Rightarrow> nat \<Rightarrow> 'v client" where
  "client_set c i d h =
     c\<lparr>pending := (pending c)(i \<mapsto> SetCall h),
       posted := posted c @ [StorageSet (Some i) d]\<rparr>"

definition onChanged :: "'v client \<Rightarrow> nat \<Rightarrow> 'v client" where
  "onChanged c l = c\<lparr>changeListeners := changeListeners c @ [l]\<rparr>"

definition destroy :: "'v client \<Rightarrow> 'v client" where
  "destroy c = c\<lparr>listening := False, pending := Map.empty\<rparr>"

text \<open>A response with an id: look the continuation up, call it, delete the entry.\<close>

definition settle_pending :: "'v client \<Rightarrow> string option \<Rightarrow> 'v payload \<Rightarrow> 'v client" where
  "settle_pending c i d =
     (case i of
        None \<Rightarrow> c
      | Some k \<Rightarrow>
          (case pending c k of
             None \<Rightarrow> c
           | Some r \<Rightarrow>
               c\<lparr>resolutions := resolutions c @ [resolve_with r d],
                 pending := (pending c)(k := None)\<rparr>))"

definition handleMessage :: "'v client \<Rightarrow> 'v message_event \<Rightarrow> 'v client" where
  "handleMessage c e =
     (if ev_source e \<noteq> ShellWindow then c
      else
        (case ev_data e of
           NotAMessage \<Rightarrow> c
         | BridgeReady \<Rightarrow> c\<lparr>ready := True, readyPromise := True\<rparr>
         | StorageResult i d \<Rightarrow> settle_pending c i d
         | StorageSetAck i \<Rightarrow> settle_pending c i []
         | StorageChanged ch \<Rightarrow>
             c\<lparr>notified := notified c @ map (\<lambda>l. (l, ch)) (changeListeners c)\<rparr>
         | _ \<Rightarrow> c))"

text \<open>The window delivers a message event to the client only while its listener is registered.\<close>

definition on_message :: "'v client \<Rightarrow> 'v message_event \<Rightarrow> 'v client" where
  "on_message c e = (if listening c then handleMessage c e else c)"

definition run_client :: "'v client \<Rightarrow> 'v message_event list \<Rightarrow> 'v client" where
  "run_client c es = foldl on_message c es"

text \<open>The id and the data a response message carries (a \<open>set\<close> acknowledgement carries none).\<close>

fun response_of :: "'v bridge_msg \<Rightarrow> (string option \<times> 'v payload) option" where
  "response_of (StorageResult i d) = Some (i, d)"
| "response_of (StorageSetAck i) = Some (i, [])"
| "response_of m = None"

section \<open>The bridge host: the message listener of the shell\<close>

text \<open>
  \<open>JSON.parse\<close> and \<open>JSON.stringify\<close> are built-ins of the platform and are parameters of
  every function that calls them. Each returns normally or throws; \<open>JSON.stringify\<close>
  returns a string or \<open>undefined\<close> (\<open>None\<close>), which \<open>localStorage.setItem\<close> stores as the
  text \<open>undefined\<close>.
\<close>

datatype 'a completion = Throw | Normal 'a

type_synonym 'v json_parse = "string \<Rightarrow> 'v option completion"
type_synonym 'v json_stringify = "'v option \<Rightarrow> string option completion"

definition String_undefined :: "string option \<Rightarrow> string" where
  "String_undefined s = (case s of None \<Rightarrow> ''undefined'' | Some t \<Rightarrow> t)"

text \<open>
  The host is the shell page with, when the extension API is there, the synchronised store
  \<open>chrome.storage.sync\<close>, and the messages it posted to the frame's window.
\<close>

record 'v host =
  page_state :: shell
  sync :: "(string \<rightharpoonup> 'v option) option"
  outbox :: "'v bridge_msg list"

definition post_to_frame :: "'v host \<Rightarrow> 'v bridge_msg \<Rightarrow> 'v host" where
  "post_to_frame hs m = hs\<lparr>outbox := outbox hs @ [m]\<rparr>"

text \<open>\<open>chrome.storage.sync.get(keys, cb)\<close>: the entries of the keys that are stored.\<close>

definition sync_get :: "(string \<rightharpoonup> 'v option) \<Rightarrow> string list \<Rightarrow> 'v payload" where
  "sync_get store keys = concat (map (\<lambda>k. case store k of None \<Rightarrow> [] | Some v \<Rightarrow> [(k, v)]) keys)"

definition sync_set :: "(string \<rightharpoonup> 'v option) \<Rightarrow> 'v payload \<Rightarrow> (string \<rightharpoonup> 'v option)" where
  "sync_set store d = foldl (\<lambda>m (k, v). m(k \<mapsto> v)) store d"

text \<open>The fallback without the extension API: \<open>localStorage\<close>, each key under its own
  \<open>try\<close>/\<open>catch\<close>.\<close>

definition local_get :: "'v json_parse \<Rightarrow> storage \<Rightarrow> string list \<Rightarrow> 'v payload" where
  "local_get parse st keys =
     concat (map (\<lambda>k. if \<not> accessible st then []
                      else (case getItem st k of
                              None \<Rightarrow> []
                            | Some s \<Rightarrow> (case parse s of Throw \<Rightarrow> [] | Normal v \<Rightarrow> [(k, v)])))
                 keys)"

definition local_set :: "'v json_stringify \<Rightarrow> storage \<Rightarrow> 'v payload \<Rightarrow> storage" where
  "local_set stringify st d =
     foldl (\<lambda>s (k, v). if \<not> accessible s then s
                        else (case stringify v of
                                Throw \<Rightarrow> s
                              | Normal t \<Rightarrow> setItem s k (String_undefined t)))
           st d"

definition host_listener ::
  "'v json_parse \<Rightarrow> 'v json_stringify \<Rightarrow> 'v host \<Rightarrow> 'v message_event \<Rightarrow> 'v host" where
  "host_listener parse stringify hs e =
     (if ev_source e \<noteq> FrameContent then hs
      else
        (case ev_data e of
           NotAMessage \<Rightarrow> hs
         | IframeReady \<Rightarrow> post_to_frame hs BridgeReady
         | StorageGet i keys \<Rightarrow>
             (case sync hs of
                Some store \<Rightarrow> post_to_frame hs (StorageResult i (sync_get store keys))
              | None \<Rightarrow>
                  post_to_frame hs (StorageResult i (local_get parse (ls (page_state hs)) keys)))
         | StorageSet i d \<Rightarrow>
             (case sync hs of
                Some store \<Rightarrow> post_to_frame (hs\<lparr>sync := Some (sync_set store d)\<rparr>) (StorageSetAck i)
              | None \<Rightarrow>
                  post_to_frame
                    (hs\<lparr>page_state :=
                          (page_state hs)\<lparr>ls := local_set stringify (ls (page_state hs)) d\<rparr>\<rparr>)
                    (StorageSetAck i))
         | _ \<Rightarrow> hs))"

text \<open>The listener exists only on the remote path.\<close>

definition host_on_message ::
  "'v json_parse \<Rightarrow> 'v json_stringify \<Rightarrow> 'v host \<Rightarrow> 'v message_event \<Rightarrow> 'v host" where
  "host_on_message parse stringify hs e =
     (if hosting (page_state hs) then host_listener parse stringify hs e else hs)"

section \<open>StorageStrategyResolver and the module state of the persistent-state hook\<close>

datatype strategy = Chrome | Bridge | Local

text \<open>What the context detection of storageBridge.ts finds.\<close>

record exec_context =
  hasChromeStorage :: bool
  isInsideIframe :: bool

definition detectStorageStrategy :: "exec_context \<Rightarrow> strategy" where
  "detectStorageStrategy cx =
     (if hasChromeStorage cx then Chrome
      else if isInsideIframe cx then Bridge
      else Local)"

text \<open>
  The module variables \<open>_strategy\<close>, \<open>_bridgeReady\<close> (absent, or a promise that is pending or
  resolved with a boolean) and \<open>_client\<close>. \<open>handshake_timer\<close> tells whether the 500 ms timer
  of \<open>waitForReady\<close> is armed, \<open>awaited_alive\<close> whether the client whose \<open>readyPromise\<close> the
  handshake awaits is still the registered one.
\<close>

datatype promise_bool = StillPending | Resolved bool

record 'v app_module =
  strategy_memo :: "strategy option"
  bridgeReady :: "promise_bool option"
  client_inst :: "'v client option"
  handshake_timer :: bool
  awaited_alive :: bool

definition getStrategy :: "'v app_module \<Rightarrow> exec_context \<Rightarrow> strategy \<times> 'v app_module" where
  "getStrategy m cx =
     (case strategy_memo m of
        None \<Rightarrow> (detectStorageStrategy cx, m\<lparr>strategy_memo := Some (detectStorageStrategy cx)\<rparr>)
      | Some s \<Rightarrow> (s, m))"

definition getStorageBridgeClient :: "'v app_module \<Rightarrow> 'v client \<times> 'v app_module" where
  "getStorageBridgeClient m =
     (case client_inst m of
        None \<Rightarrow> (new_client, m\<lparr>client_inst := Some new_client\<rparr>)
      | Some c \<Rightarrow> (c, m))"

text \<open>
  \<open>ensureBridge\<close>: the cached promise if there is one; else the client is fetched and
  \<open>waitForReady\<close> races its \<open>readyPromise\<close> against a timer of 500 ms, armed by the call.
  A \<open>readyPromise\<close> that is already resolved wins the race at once.
\<close>

definition ensureBridge :: "'v app_module \<Rightarrow> 'v app_module" where
  "ensureBridge m =
     (if bridgeReady m \<noteq> None then m
      else
        let (c, m1) = getStorageBridgeClient m in
        m1\<lparr>bridgeReady := Some (if readyPromise c then Resolved True else StillPending),
           handshake_timer := True,
           awaited_alive := True\<rparr>)"

text \<open>
  What can happen to the module afterwards: a message event reaches the window, the
  handshake timer fires, or code of the application calls \<open>getStrategy\<close>, \<open>ensureBridge\<close>,
  the client's \<open>get\<close> or \<open>set\<close> (through \<open>storageGet\<close> and \<open>storageSet\<close>), or \<open>destroy\<close>.
  When the timer fires on a handshake that is still pending, \<open>waitForReady\<close> rejects and the
  \<open>catch\<close> of \<open>ensureBridge\<close> sets \<open>_strategy = "local"\<close> and resolves with \<open>false\<close>.
\<close>

datatype 'v app_event =
    Message "'v message_event"
  | HandshakeTimeout
  | CallGetStrategy
  | CallEnsureBridge
  | CallClientGet string "string list" nat
  | CallClientSet string "'v payload" nat
  | CallDestroy

fun app_step :: "exec_context \<Rightarrow> 'v app_module \<Rightarrow> 'v app_event \<Rightarrow> 'v app_module" where
  "app_step cx m (Message e) =
     (case client_inst m of
        None \<Rightarrow> m
      | Some c \<Rightarrow>
          let c1 = on_message c e; m1 = m\<lparr>client_inst := Some c1\<rparr> in
          if bridgeReady m = Some StillPending \<and> awaited_alive m \<and> readyPromise c1
          then m1\<lparr>bridgeReady := Some (Resolved True)\<rparr>
          else m1)"
| "app_step cx m HandshakeTimeout =
     (if \<not> handshake_timer m then m
      else if bridgeReady m = Some StillPending
      then m\<lparr>handshake_timer := False, strategy_memo := Some Local,
             bridgeReady := Some (Resolved False)\<rparr>
      else m\<lparr>handshake_timer := False\<rparr>)"
| "app_step cx m CallGetStrategy = snd (getStrategy m cx)"
| "app_step cx m CallEnsureBridge = ensureBridge m"
| "app_step cx m (CallClientGet i keys h) =
     (let (c, m1) = getStorageBridgeClient m in m1\<lparr>client_inst := Some (client_get c i keys h)\<rparr>)"
| "app_step cx m (CallClientSet i d h) =
     (let (c, m1) = getStorageBridgeClient m in m1\<lparr>client_inst := Some (client_set c i d h)\<rparr>)"
| "app_step cx m CallDestroy =
     (case client_inst m of
        None \<Rightarrow> m
      | Some c \<Rightarrow> m\<lparr>client_inst := None, awaited_alive := False\<rparr>)"

definition app_run :: "exec_context \<Rightarrow> 'v app_module \<Rightarrow> 'v app_event list \<Rightarrow> 'v app_module" where
  "app_run cx m evs = foldl (app_step cx) m evs"

text \<open>A ready acknowledgement that the client accepts: from the parent, tagged bridge-ready.\<close>

fun is_ready_ack :: "'v app_event \<Rightarrow> bool" where
  "is_ready_ack (Message e) = (ev_source e = ShellWindow \<and> ev_data e = BridgeReady)"
| "is_ready_ack ev = False"

section \<open>PersistentStateStore: \<open>usePersistentState\<close>\<close>

text \<open>
  One use of the hook: the key, the in-memory value (\<open>null\<close> is \<open>None\<close>), \<open>loading\<close>, the
  ref \<open>isLoaded\<close>, the flag \<open>cancelled\<close> of the effect, and where the asynchronous \<open>load\<close>
  stands: not started, waiting for the backend to answer, suspended at \<open>await\<close> with the
  result of a read that has already run, or finished.
\<close>

datatype 'v read_result = ReadOk "'v option" | ReadThrew

datatype 'v load_phase = NotStarted | AwaitBackend | Resuming "'v read_result" | Finished

record 'v hook =
  hook_key :: string
  state :: "'v option"
  loading :: bool
  isLoaded :: bool
  cancelled :: bool
  phase :: "'v load_phase"

definition usePersistentState :: "string \<Rightarrow> 'v option \<Rightarrow> 'v hook" where
  "usePersistentState k initialValue =
     \<lparr>hook_key = k, state = initialValue, loading = True, isLoaded = False,
      cancelled = False, phase = NotStarted\<rparr>"

text \<open>\<open>storageGet\<close> under the local strategy: \<open>saved ? JSON.parse(saved) : null\<close>.\<close>

definition storageGet_local :: "'v json_parse \<Rightarrow> storage \<Rightarrow> string \<Rightarrow> 'v read_result" where
  "storageGet_local parse st k =
     (if \<not> accessible st then ReadThrew
      else
        (case getItem st k of
           None \<Rightarrow> ReadOk None
         | Some saved \<Rightarrow>
             if saved = [] then ReadOk None
             else (case parse saved of Throw \<Rightarrow> ReadThrew | Normal v \<Rightarrow> ReadOk v)))"

text \<open>\<open>storageSet\<close> under the local strategy; a throw is caught by the caller and logged.\<close>

definition storageSet_local :: "'v json_stringify \<Rightarrow> storage \<Rightarrow> string \<Rightarrow> 'v option \<Rightarrow> storage" where
  "storageSet_local stringify st k v =
     (case stringify v of
        Throw \<Rightarrow> st
      | Normal t \<Rightarrow> if accessible st then setItem st k (String_undefined t) else st)"

text \<open>
  The end of \<open>load\<close>, after the read: the value is replaced only by a result that is not
  \<open>null\<close>, and the \<open>finally\<close> block clears \<open>loading\<close>; both only while the effect is not
  cancelled.
\<close>

definition load_finish :: "'v read_result \<Rightarrow> 'v hook \<Rightarrow> 'v hook" where
  "load_finish r h =
     (let h1 = (case r of
                  ReadOk (Some v) \<Rightarrow> if \<not> cancelled h then h\<lparr>state := Some v\<rparr> else h
                | _ \<Rightarrow> h)
      in if \<not> cancelled h1 then h1\<lparr>loading := False, isLoaded := True, phase := Finished\<rparr>
         else h1\<lparr>phase := Finished\<rparr>)"

text \<open>
  \<open>load\<close> from the call of \<open>storageGet\<close> with the strategy in effect (after the handshake,
  when there was one). Under the local strategy the read runs at once and \<open>load\<close> is
  suspended with its result; under the other two the request is out and the backend's
  answer is awaited.
\<close>

definition load_read :: "strategy \<Rightarrow> 'v json_parse \<Rightarrow> storage \<Rightarrow> 'v hook \<Rightarrow> 'v hook" where
  "load_read s parse st h =
     (case s of
        Local \<Rightarrow> h\<lparr>phase := Resuming (storageGet_local parse st (hook_key h))\<rparr>
      | _ \<Rightarrow> h\<lparr>phase := AwaitBackend\<rparr>)"

text \<open>The continuation after \<open>await\<close>, the answer of the backend, the cleanup of the effect.\<close>

definition load_resume :: "'v hook \<Rightarrow> 'v hook" where
  "load_resume h = (case phase h of Resuming r \<Rightarrow> load_finish r h | _ \<Rightarrow> h)"




text \<open>\<open>setValue\<close> under the local strategy: the value in memory, then the write.\<close>

definition setValue_local ::
  "'v json_stringify \<Rightarrow> storage \<Rightarrow> 'v hook \<Rightarrow> 'v option \<Rightarrow> 'v hook \<times> storage" where
  "setValue_local stringify st h newValue =
     (h\<lparr>state := newValue\<rparr>, storageSet_local stringify st (hook_key h) newValue)"

text \<open>
  A codec used in examples: what \<open>JSON.stringify\<close> and \<open>JSON.parse\<close> do on the three
  literals \<open>true\<close>, \<open>false\<close> and \<open>null\<close>, for the value type \<open>bool\<close>.
\<close>

definition lit_stringify :: "bool json_stringify" where
  "lit_stringify v =
     Normal (Some (case v of None \<Rightarrow> ''null'' | Some True \<Rightarrow> ''true'' | Some False \<Rightarrow> ''false''))"

definition lit_parse :: "bool json_parse" where
  "lit_parse s =
     (if s = ''null'' then Normal None
      else if s = ''true'' then Normal (Some True)
      else if s = ''false'' then Normal (Some False)
      else Throw)"

section \<open>A load under the bridge strategy, end to end\<close>




text \<open>The data with which the promise of call \<open>h\<close> is resolved, among new resolutions.\<close>

fun data_for :: "nat \<Rightarrow> (nat \<times> 'v resolution) list \<Rightarrow> 'v payload option" where
  "data_for h [] = None"
| "data_for h ((h', GotData d) # rs) = (if h' = h then Some d else data_for h rs)"
| "data_for h ((h', SetDone) # rs) = data_for h rs"





section \<open>Reading the trace of writes, and the states used as examples\<close>

text \<open>The writes that lead from the store \<open>st\<close> to the later store \<open>st'\<close>.\<close>

definition new_writes :: "storage \<Rightarrow> storage \<Rightarrow> ls_op list" where
  "new_writes st st' = drop (length (writes st)) (writes st')"

text \<open>Three recorded failures, the last at time 0.\<close>

definition st0 :: storage where
  "st0 = \<lparr>items = [OTA_FAIL_COUNT \<mapsto> ''3'', OTA_FAIL_TS \<mapsto> ''0''], accessible = True, writes = []\<rparr>"

text \<open>The flag set by a finished precache, and no failure.\<close>

definition st1 :: storage where
  "st1 = \<lparr>items = [OTA_USE_REMOTE \<mapsto> ''true''], accessible = True, writes = []\<rparr>"

definition sh0 :: shell where
  "sh0 = \<lparr>ls = st1, location = ShellPage, frame_src = None, settled = False, timer = False,
          loader_hidden = False, hosting = False\<rparr>"

text \<open>The shell on the remote path, as the decision leaves it.\<close>

definition sh_remote :: shell where
  "sh_remote = snd (shell_main sh0 (Some True) 1000)"

text \<open>The handshake is still open: pending, its timer armed, and the awaited client (if it
  is still the registered one) not yet acknowledged.\<close>

definition handshake_open :: "'v app_module \<Rightarrow> bool" where
  "handshake_open m \<longleftrightarrow>
     bridgeReady m = Some StillPending \<and> handshake_timer m
     \<and> (awaited_alive m \<longrightarrow> (\<exists>c. client_inst m = Some c \<and> \<not> readyPromise c))"

text \<open>The handshake was rejected and the strategy is the local fallback.\<close>

definition downgraded :: "'v app_module \<Rightarrow> bool" where
  "downgraded m \<longleftrightarrow> strategy_memo m = Some Local \<and> bridgeReady m = Some (Resolved False)"

text \<open>The module in a frame, before the first call of \<open>ensureBridge\<close>.\<close>

definition m0 :: "bool app_module" where
  "m0 = \<lparr>strategy_memo = Some Bridge, bridgeReady = None, client_inst = None,
         handshake_timer = False, awaited_alive = False\<rparr>"

definition ack_from :: "window_ref \<Rightarrow> bool message_event" where
  "ack_from w = \<lparr>ev_source = w, ev_origin = REMOTE_APP_URL, ev_data = BridgeReady\<rparr>"

definition cx_frame :: exec_context where
  "cx_frame = \<lparr>hasChromeStorage = False, isInsideIframe = True\<rparr>"

text \<open>A client with a \<open>get\<close> and a \<open>set\<close> in flight.\<close>

definition c_two :: "bool client" where
  "c_two = client_set (client_get new_client ''id-a'' [''app_settings''] 1)
             ''id-b'' [(''app_settings'', Some True)] 2"

definition from_shell :: "bool bridge_msg \<Rightarrow> bool message_event" where
  "from_shell m = \<lparr>ev_source = ShellWindow, ev_origin = ''chrome-extension://daybound'', ev_data = m\<rparr>"

text \<open>The host on the remote path with the extension store, and a request that comes from
  the frame's window after its document has moved to another origin.\<close>

definition hs0 :: "bool host" where
  "hs0 = \<lparr>page_state = sh_remote, sync = Some [''app_settings'' \<mapsto> Some True], outbox = []\<rparr>"

definition e_other_origin :: "bool message_event" where
  "e_other_origin =
     \<lparr>ev_source = FrameContent, ev_origin = ''https://other.example'',
      ev_data = StorageGet (Some ''1'') [''app_settings'']\<rparr>"


definition st_empty :: storage where
  "st_empty = \<lparr>items = Map.empty, accessible = True, writes = []\<rparr>"




section \<open>Properties: number conversions\<close>

lemma of_char_digit_char: "d < 10 \<Longrightarrow> (of_char (digit_char d) :: nat) = 48 + d"
  by (simp add: digit_char_def)

lemma digitVal_digit_char: "d < 10 \<Longrightarrow> digitVal (digit_char d) = Some d"
  by (simp add: digitVal_def of_char_digit_char Let_def)

lemma isDecimalDigit_digit_char: "d < 10 \<Longrightarrow> isDecimalDigit (digit_char d)"
  by (simp add: isDecimalDigit_def of_char_digit_char)

lemma not_ws_digit_char: "d < 10 \<Longrightarrow> \<not> isStrWhiteSpace (digit_char d)"
  by (simp add: isStrWhiteSpace_def of_char_digit_char)

lemma not_sign_digit_char:
  assumes d: "d < 10"
  shows "digit_char d \<noteq> CHR ''-'' \<and> digit_char d \<noteq> CHR ''+''"
proof (intro conjI notI)
  assume "digit_char d = CHR ''-''"
  then have "(of_char (digit_char d) :: nat) = of_char CHR ''-''" by simp
  with of_char_digit_char[OF d] show False by simp
next
  assume "digit_char d = CHR ''+''"
  then have "(of_char (digit_char d) :: nat) = of_char CHR ''+''" by simp
  with of_char_digit_char[OF d] show False by simp
qed

lemma digitsVal_snoc:
  "d < 10 \<Longrightarrow> digitsVal 10 acc (xs @ [digit_char d]) =
     (case digitsVal 10 acc xs of None \<Rightarrow> None | Some v \<Rightarrow> Some (v * 10 + d))"
  by (induction xs arbitrary: acc) (auto simp: digitVal_digit_char split: option.splits)

lemma digits10_nonempty: "digits10 n \<noteq> []"
  by (subst digits10.simps) simp

lemma digits10_all_digits: "\<forall>c \<in> set (digits10 n). isDecimalDigit c"
proof (induction n rule: digits10.induct)
  case (1 n)
  show ?case
  proof (cases "n < 10")
    case True
    then show ?thesis by (subst digits10.simps) (simp add: isDecimalDigit_digit_char)
  next
    case False
    with 1 show ?thesis by (subst digits10.simps) (simp add: isDecimalDigit_digit_char)
  qed
qed

lemma digitsVal_digits10: "digitsVal 10 0 (digits10 n) = Some n"
proof (induction n rule: digits10.induct)
  case (1 n)
  show ?case
  proof (cases "n < 10")
    case True
    then show ?thesis by (subst digits10.simps) (simp add: digitVal_digit_char)
  next
    case False
    with 1 show ?thesis by (subst digits10.simps) (simp add: digitsVal_snoc)
  qed
qed

lemma hd_digits10: "\<exists>d < 10. hd (digits10 n) = digit_char d"
proof (induction n rule: digits10.induct)
  case (1 n)
  show ?case
  proof (cases "n < 10")
    case True
    then show ?thesis by (subst digits10.simps) auto
  next
    case False
    with 1 show ?thesis by (subst digits10.simps) (simp add: digits10_nonempty)
  qed
qed

lemma parseInt10_digits10: "parseInt10 (digits10 n) = Some (int n)"
proof -
  obtain d where d: "d < 10" "hd (digits10 n) = digit_char d" using hd_digits10 by blast
  have ne: "digits10 n \<noteq> []" by (rule digits10_nonempty)
  then obtain x xs where xs: "digits10 n = x # xs" by (cases "digits10 n") auto
  with d have x: "x = digit_char d" by simp
  have t: "trimStart (digits10 n) = digits10 n"
    using not_ws_digit_char[OF d(1)] by (simp add: trimStart_def xs x)
  have tw: "takeWhile isDecimalDigit (digits10 n) = digits10 n"
    using digits10_all_digits by (simp add: takeWhile_eq_all_conv)
  show ?thesis
    using not_sign_digit_char[OF d(1)] ne
    by (simp add: parseInt10_def t Let_def d(2) tw parseDigits_def digitsVal_digits10)
qed

lemma parseInt10_neg_digits10: "parseInt10 (CHR ''-'' # digits10 n) = Some (- int n)"
proof -
  have w: "\<not> isStrWhiteSpace CHR ''-''" by (simp add: isStrWhiteSpace_def)
  have tw: "takeWhile isDecimalDigit (digits10 n) = digits10 n"
    using digits10_all_digits by (simp add: takeWhile_eq_all_conv)
  show ?thesis
    using w digits10_nonempty[of n]
    by (simp add: parseInt10_def trimStart_def Let_def tw parseDigits_def digitsVal_digits10)
qed

lemma parseInt10_String_num: "parseInt10 (String_num (Some n)) = Some n"
  by (simp add: String_num_def parseInt10_digits10 parseInt10_neg_digits10)

lemma String_num_nonempty: "String_num x \<noteq> []"
  by (simp add: String_num_def digits10_nonempty split: option.splits)

section \<open>Properties: SemverComparator\<close>

lemma cmp_component_NaN: "cmp_component NaN y = 0" "cmp_component y NaN = 0"
  by (cases y; simp add: cmp_component_def num_gt_def)+

lemma cmp_component_same: "cmp_component (Fin q) (Fin q) = 0"
  by (simp add: cmp_component_def num_gt_def)

lemma compareLoop_step:
  "i < 3 \<Longrightarrow> compareLoop pa pb i =
     (if cmp_component (nth_or_zero pa i) (nth_or_zero pb i) \<noteq> 0
      then cmp_component (nth_or_zero pa i) (nth_or_zero pb i)
      else compareLoop pa pb (Suc i))"
  by (subst compareLoop.simps) (simp add: cmp_component_def Let_def)

lemma compareLoop_end: "compareLoop pa pb 3 = 0"
  by (subst compareLoop.simps) simp

lemma compareParts_first_difference:
  "compareParts pa pb =
     (case filter (\<lambda>c. c \<noteq> 0)
             (map (\<lambda>i. cmp_component (nth_or_zero pa i) (nth_or_zero pb i)) [0, 1, 2]) of
        [] \<Rightarrow> 0
      | c # cs \<Rightarrow> c)"
proof -
  have e3: "compareLoop pa pb (Suc (Suc (Suc 0))) = 0"
    using compareLoop_end by (simp add: numeral_3_eq_3)
  show ?thesis
    unfolding compareParts_def
    by (simp add: compareLoop_step[of 0] compareLoop_step[of "Suc 0"]
        compareLoop_step[of "Suc (Suc 0)"] e3 numeral_2_eq_2)
qed

lemma compareLoop_cong:
  "(\<And>j. j < 3 \<Longrightarrow> cmp_component (nth_or_zero pa j) (nth_or_zero pb j)
        = cmp_component (nth_or_zero pa' j) (nth_or_zero pb' j))
   \<Longrightarrow> compareParts pa pb = compareParts pa' pb'"
  by (simp add: compareParts_first_difference)

lemma compareParts_NaN_skipped:
  assumes "i < length pa" "pa ! i = NaN"
  shows "compareParts pa pb = compareParts (pa[i := Fin 0]) (pb[i := Fin 0])"
proof (rule compareLoop_cong)
  fix j :: nat assume "j < 3"
  show "cmp_component (nth_or_zero pa j) (nth_or_zero pb j)
        = cmp_component (nth_or_zero (pa[i := Fin 0]) j) (nth_or_zero (pb[i := Fin 0]) j)"
  proof (cases "j = i")
    case True
    with assms show ?thesis
      by (simp add: nth_or_zero_def cmp_component_NaN cmp_component_same)
  next
    case False
    then show ?thesis by (simp add: nth_or_zero_def)
  qed
qed

lemma compareParts_range: "compareParts pa pb \<in> {- 1, 0, 1}"
  by (simp add: compareParts_first_difference cmp_component_def)

text \<open>
  Claim C4, as amended. \<open>compareSemver\<close> is total (it never throws) and returns -1, 0
  or 1: the outcome of the first of the three positions major, minor, patch at which the
  two components differ, and 0 when none does. A missing segment reads as 0. A segment that
  is not numeric converts to \<open>NaN\<close>, which is neither greater nor less than anything: that
  position counts as a tie, whatever the other side holds, and the comparison moves on to
  the next position. The result is therefore the one obtained with that position set to 0
  on both sides, not the one obtained with the segment alone replaced by 0.
\<close>

theorem compareSemver_skips_NaN:
  "compareSemver a b =
     (case filter (\<lambda>c. c \<noteq> 0)
             (map (\<lambda>i. cmp_component (component a i) (component b i)) [0, 1, 2]) of
        [] \<Rightarrow> 0
      | c # cs \<Rightarrow> c)
   \<and> compareSemver a b \<in> {- 1, 0, 1}
   \<and> (\<forall>i. length (split_on CHR ''.'' a) \<le> i \<longrightarrow> component a i = Fin 0)
   \<and> (\<forall>i y. component a i = NaN \<longrightarrow>
          cmp_component (component a i) y = 0 \<and> cmp_component y (component a i) = 0)
   \<and> (\<forall>i. i < length (versionParts a) \<and> versionParts a ! i = NaN \<longrightarrow>
          compareSemver a b =
            compareParts ((versionParts a)[i := Fin 0]) ((versionParts b)[i := Fin 0]))"
proof (intro conjI allI impI)
  show "compareSemver a b =
     (case filter (\<lambda>c. c \<noteq> 0)
             (map (\<lambda>i. cmp_component (component a i) (component b i)) [0, 1, 2]) of
        [] \<Rightarrow> 0
      | c # cs \<Rightarrow> c)"
    unfolding compareSemver_def component_def by (rule compareParts_first_difference)
  show "compareSemver a b \<in> {- 1, 0, 1}"
    unfolding compareSemver_def by (rule compareParts_range)
next
  fix i assume "length (split_on CHR ''.'' a) \<le> i"
  then show "component a i = Fin 0"
    by (simp add: component_def nth_or_zero_def versionParts_def)
next
  fix i y assume "component a i = NaN"
  then show "cmp_component (component a i) y = 0" "cmp_component y (component a i) = 0"
    by (simp_all add: cmp_component_NaN)
next
  fix i assume "i < length (versionParts a) \<and> versionParts a ! i = NaN"
  then show "compareSemver a b =
      compareParts ((versionParts a)[i := Fin 0]) ((versionParts b)[i := Fin 0])"
    unfolding compareSemver_def by (simp add: compareParts_NaN_skipped)
qed

text \<open>The theorem at \<open>x.1.0\<close> against \<open>1.0.0\<close>, and at the two-segment version \<open>1.2\<close>.\<close>

theorem compareSemver_skips_NaN_witness:
  "compareSemver ''x.1.0'' ''1.0.0'' = compareParts [Fin 0, Fin 1, Fin 0] [Fin 0, Fin 0, Fin 0]
   \<and> component ''1.2'' 2 = Fin 0
   \<and> cmp_component (component ''x.1.0'' 0) (Fin 7) = 0"
proof -
  have p: "versionParts ''x.1.0'' = [NaN, Fin 1, Fin 0]" by code_simp
  have q: "versionParts ''1.0.0'' = [Fin 1, Fin 0, Fin 0]" by code_simp
  have l: "length (split_on CHR ''.'' ''1.2'') \<le> 2" by code_simp
  have c: "component ''x.1.0'' 0 = NaN" by code_simp
  note T = compareSemver_skips_NaN[of "''x.1.0''" "''1.0.0''"]
  have 1: "compareSemver ''x.1.0'' ''1.0.0''
             = compareParts [Fin 0, Fin 1, Fin 0] [Fin 0, Fin 0, Fin 0]"
    using T[THEN conjunct2, THEN conjunct2, THEN conjunct2, THEN conjunct2, rule_format, of 0]
    by (simp add: p q)
  have 2: "component ''1.2'' 2 = Fin 0"
    using compareSemver_skips_NaN[of "''1.2''" "''0''", THEN conjunct2, THEN conjunct2,
        THEN conjunct1, rule_format, of 2] l by simp
  have 3: "cmp_component (component ''x.1.0'' 0) (Fin 7) = 0"
    using T[THEN conjunct2, THEN conjunct2, THEN conjunct2, THEN conjunct1, rule_format,
        of 0 "Fin 7"] c by simp
  from 1 2 3 show ?thesis by simp
qed

text \<open>
  Claim C4 as stated fails: the first segment of \<open>x.1.0\<close> is not numeric, and comparing
  \<open>x.1.0\<close> with \<open>1.0.0\<close> gives 1, while with that segment replaced by 0 it gives -1.
\<close>

theorem compareSemver_NaN_counterexample:
  "Number ''x'' = NaN \<and> compareSemver ''x.1.0'' ''1.0.0'' = 1
   \<and> compareSemver ''0.1.0'' ''1.0.0'' = - 1"
  by code_simp

section \<open>Properties: BackoffTracker, ShellRouter and the persisted update state\<close>

lemma keys_distinct:
  "OTA_FAIL_COUNT \<noteq> OTA_FAIL_TS" "OTA_FAIL_TS \<noteq> OTA_FAIL_COUNT"
  "OTA_FAIL_COUNT \<noteq> OTA_USE_REMOTE" "OTA_USE_REMOTE \<noteq> OTA_FAIL_COUNT"
  "OTA_FAIL_TS \<noteq> OTA_USE_REMOTE" "OTA_USE_REMOTE \<noteq> OTA_FAIL_TS"
  "OTA_REMOTE_VER \<noteq> OTA_FAIL_COUNT" "OTA_FAIL_COUNT \<noteq> OTA_REMOTE_VER"
  "OTA_REMOTE_VER \<noteq> OTA_FAIL_TS" "OTA_FAIL_TS \<noteq> OTA_REMOTE_VER"
  "OTA_REMOTE_VER \<noteq> OTA_USE_REMOTE" "OTA_USE_REMOTE \<noteq> OTA_REMOTE_VER"
  by (simp_all add: OTA_FAIL_COUNT_def OTA_FAIL_TS_def OTA_USE_REMOTE_def OTA_REMOTE_VER_def)

lemma parseInt10_zero: "parseInt10 ''0'' = Some 0"
  by code_simp

lemma failCount_after_reset: "failCount (setItem st OTA_FAIL_COUNT ''0'') = Some 0"
  by (simp add: failCount_def getItem_or_def getItem_def setItem_def parseInt10_zero)

lemma failTimestamp_after_reset: "failTimestamp (setItem st OTA_FAIL_COUNT v) = failTimestamp st"
  by (simp add: failTimestamp_def getItem_or_def getItem_def setItem_def keys_distinct)

lemma isInBackoff_numeric:
  assumes "accessible st" and "failCount st = Some c" and "failTimestamp st = Some t"
  shows "isInBackoff st now =
           (if c < 3 then (False, st)
            else if 300000 < now - t then (False, setItem st OTA_FAIL_COUNT ''0'')
            else (True, st))"
  using assms
  by (simp add: isInBackoff_def nan_lt_def nan_gt_def nan_sub_def MAX_FAILURES_def
      BACKOFF_MS_def Let_def)

text \<open>
  Claim C3, as amended. On a store that can be read and whose two fields are absent or
  numeric (\<open>c\<close> and \<open>t\<close> are what the code reads, 0 for an absent field), \<open>isInBackoff\<close>
  returns true if and only if \<open>c \<ge> 3\<close> and \<open>now - t \<le> 300000\<close>: at exactly five minutes
  the remote is still blocked. When \<open>c \<ge> 3\<close> and more than five minutes have passed it
  writes \<open>failCount = "0"\<close>, leaves the timestamp, and returns false; in every other case
  it leaves the store as it was.
\<close>

theorem isInBackoff_window:
  assumes "accessible st" and "failCount st = Some c" and "failTimestamp st = Some t"
  shows "(fst (isInBackoff st now) \<longleftrightarrow> 3 \<le> c \<and> now - t \<le> 300000)
       \<and> (3 \<le> c \<and> 300000 < now - t \<longrightarrow>
            isInBackoff st now = (False, setItem st OTA_FAIL_COUNT ''0'')
            \<and> failCount (snd (isInBackoff st now)) = Some 0
            \<and> failTimestamp (snd (isInBackoff st now)) = Some t)
       \<and> (\<not> (3 \<le> c \<and> 300000 < now - t) \<longrightarrow> snd (isInBackoff st now) = st)"
proof -
  note eq = isInBackoff_numeric[OF assms, of now]
  have 1: "fst (isInBackoff st now) \<longleftrightarrow> 3 \<le> c \<and> now - t \<le> 300000"
    by (simp add: eq)
  have 2: "3 \<le> c \<and> 300000 < now - t \<longrightarrow>
            isInBackoff st now = (False, setItem st OTA_FAIL_COUNT ''0'')
            \<and> failCount (snd (isInBackoff st now)) = Some 0
            \<and> failTimestamp (snd (isInBackoff st now)) = Some t"
    using assms(3) by (simp add: eq failCount_after_reset failTimestamp_after_reset)
  have 3: "\<not> (3 \<le> c \<and> 300000 < now - t) \<longrightarrow> snd (isInBackoff st now) = st"
    by (simp add: eq)
  from 1 2 3 show ?thesis by blast
qed

lemma st0_facts: "accessible st0" "failCount st0 = Some 3" "failTimestamp st0 = Some 0"
  by (simp_all add: st0_def failCount_def failTimestamp_def getItem_or_def getItem_def
      keys_distinct parseInt10_zero) code_simp


text \<open>The theorem after three failures at time 0, at and just past the five minutes.\<close>

theorem isInBackoff_window_witness:
  "fst (isInBackoff st0 300000) \<and> \<not> fst (isInBackoff st0 300001)
   \<and> isInBackoff st0 300001 = (False, setItem st0 OTA_FAIL_COUNT ''0'')
   \<and> failCount (snd (isInBackoff st0 300001)) = Some 0
   \<and> snd (isInBackoff st0 300000) = st0"
  using isInBackoff_window[OF st0_facts, of 300000] isInBackoff_window[OF st0_facts, of 300001]
  by (simp add: failCount_after_reset)

text \<open>
  Claim C3 as stated fails at the boundary: with three failures at time 0 and
  \<open>now = 300000\<close>, \<open>isInBackoff\<close> returns true although \<open>now - failTimestamp < 300000\<close>
  is false.
\<close>

theorem isInBackoff_boundary_counterexample:
  "failCount st0 = Some 3 \<and> failTimestamp st0 = Some 0
   \<and> fst (isInBackoff st0 300000) \<and> \<not> (300000 - 0 < (300000 :: int))"
  using st0_facts by (simp add: isInBackoff_numeric)

lemma new_writes_simps:
  "new_writes st st = []"
  "new_writes st (setItem st k v) = [SetItem k v]"
  "new_writes st (removeItem st k) = [RemoveItem k]"
  "new_writes st (setItem (setItem st k v) k2 v2) = [SetItem k v, SetItem k2 v2]"
  "new_writes st (removeItem (removeItem st k) k2) = [RemoveItem k, RemoveItem k2]"
  "new_writes st (removeItem (setItem (setItem st k v) k2 v2) k3) =
     [SetItem k v, SetItem k2 v2, RemoveItem k3]"
  "new_writes st (removeItem (removeItem (setItem (setItem st k v) k2 v2) k3) k4) =
     [SetItem k v, SetItem k2 v2, RemoveItem k3, RemoveItem k4]"
  by (simp_all add: new_writes_def setItem_def removeItem_def)

lemma accessible_simps:
  "accessible (setItem st k v) = accessible st"
  "accessible (removeItem st k) = accessible st"
  by (simp_all add: setItem_def removeItem_def)

lemma new_writes_recordFailure:
  "new_writes st (recordFailure st now) =
     (if accessible st
      then [SetItem OTA_FAIL_COUNT (String_num (nan_add (failCount st) (Some 1))),
            SetItem OTA_FAIL_TS (String_num (Some now))]
      else [])"
  by (simp add: recordFailure_def Let_def new_writes_simps)

lemma new_writes_clearFailures:
  "new_writes st (clearFailures st) =
     (if accessible st then [RemoveItem OTA_FAIL_COUNT, RemoveItem OTA_FAIL_TS] else [])"
  by (simp add: clearFailures_def new_writes_simps)

lemma new_writes_isInBackoff:
  "new_writes st (snd (isInBackoff st now)) = [] \<or>
   new_writes st (snd (isInBackoff st now)) = [SetItem OTA_FAIL_COUNT ''0'']"
  by (simp add: isInBackoff_def Let_def new_writes_simps)

lemma new_writes_settle:
  "new_writes (ls sh) (ls (settle success sh now)) =
     (if settled sh \<or> \<not> accessible (ls sh) then []
      else if success then [RemoveItem OTA_FAIL_COUNT, RemoveItem OTA_FAIL_TS]
      else [SetItem OTA_FAIL_COUNT (String_num (nan_add (failCount (ls sh)) (Some 1))),
            SetItem OTA_FAIL_TS (String_num (Some now)),
            RemoveItem OTA_USE_REMOTE])"
  by (simp add: settle_def Let_def goToBundled_def clearFailures_def recordFailure_def
      new_writes_simps accessible_simps)

lemma new_writes_runCheck:
  "new_writes st (runCheck st m precached) = [] \<or>
   new_writes st (runCheck st m precached) = [RemoveItem OTA_USE_REMOTE] \<or>
   new_writes st (runCheck st m precached) = [SetItem OTA_USE_REMOTE ''true''] \<or>
   (\<exists>v. m = VersionString v \<and> precached \<and>
      new_writes st (runCheck st m precached) =
        [SetItem OTA_USE_REMOTE ''true'', SetItem OTA_REMOTE_VER v,
         RemoveItem OTA_FAIL_COUNT, RemoveItem OTA_FAIL_TS])"
  by (cases m) (simp_all add: runCheck_def new_writes_simps)

text \<open>
  Claim C8, as amended. \<open>recordFailure\<close> writes the count and then the timestamp,
  \<open>clearFailures\<close> removes both, and \<open>settle\<close> and the checker \<open>runCheck\<close> touch both fields
  or neither. \<open>isInBackoff\<close> is the exception: it never touches the timestamp, and when it
  writes at all it writes \<open>failCount = "0"\<close> alone.
\<close>

theorem fail_fields_written_together:
  "new_writes st (recordFailure st now) =
     (if accessible st
      then [SetItem OTA_FAIL_COUNT (String_num (nan_add (failCount st) (Some 1))),
            SetItem OTA_FAIL_TS (String_num (Some now))]
      else [])
   \<and> new_writes st (clearFailures st) =
       (if accessible st then [RemoveItem OTA_FAIL_COUNT, RemoveItem OTA_FAIL_TS] else [])
   \<and> (touches (new_writes (ls sh) (ls (settle success sh now))) OTA_FAIL_COUNT
        \<longleftrightarrow> touches (new_writes (ls sh) (ls (settle success sh now))) OTA_FAIL_TS)
   \<and> (touches (new_writes st (runCheck st m precached)) OTA_FAIL_COUNT
        \<longleftrightarrow> touches (new_writes st (runCheck st m precached)) OTA_FAIL_TS)
   \<and> \<not> touches (new_writes st (snd (isInBackoff st now))) OTA_FAIL_TS
   \<and> (touches (new_writes st (snd (isInBackoff st now))) OTA_FAIL_COUNT
        \<longleftrightarrow> new_writes st (snd (isInBackoff st now)) = [SetItem OTA_FAIL_COUNT ''0''])"
proof (intro conjI)
  show "new_writes st (recordFailure st now) =
     (if accessible st
      then [SetItem OTA_FAIL_COUNT (String_num (nan_add (failCount st) (Some 1))),
            SetItem OTA_FAIL_TS (String_num (Some now))]
      else [])"
    by (rule new_writes_recordFailure)
  show "new_writes st (clearFailures st) =
       (if accessible st then [RemoveItem OTA_FAIL_COUNT, RemoveItem OTA_FAIL_TS] else [])"
    by (rule new_writes_clearFailures)
  show "touches (new_writes (ls sh) (ls (settle success sh now))) OTA_FAIL_COUNT
        \<longleftrightarrow> touches (new_writes (ls sh) (ls (settle success sh now))) OTA_FAIL_TS"
    by (simp add: new_writes_settle touches_def keys_distinct)
  show "touches (new_writes st (runCheck st m precached)) OTA_FAIL_COUNT
        \<longleftrightarrow> touches (new_writes st (runCheck st m precached)) OTA_FAIL_TS"
    using new_writes_runCheck[of st m precached]
    by (auto simp: touches_def keys_distinct)
  show "\<not> touches (new_writes st (snd (isInBackoff st now))) OTA_FAIL_TS"
    using new_writes_isInBackoff[of st now] by (auto simp: touches_def keys_distinct)
  show "touches (new_writes st (snd (isInBackoff st now))) OTA_FAIL_COUNT
        \<longleftrightarrow> new_writes st (snd (isInBackoff st now)) = [SetItem OTA_FAIL_COUNT ''0'']"
    using new_writes_isInBackoff[of st now] by (auto simp: touches_def)
qed

text \<open>
  Claim C8 as stated fails: after three failures at time 0, \<open>isInBackoff\<close> at time 300001
  writes the count and neither writes nor removes the timestamp.
\<close>

theorem isInBackoff_resets_count_alone_counterexample:
  "new_writes st0 (snd (isInBackoff st0 300001)) = [SetItem OTA_FAIL_COUNT ''0'']
   \<and> touches (new_writes st0 (snd (isInBackoff st0 300001))) OTA_FAIL_COUNT
   \<and> \<not> touches (new_writes st0 (snd (isInBackoff st0 300001))) OTA_FAIL_TS
   \<and> getItem (snd (isInBackoff st0 300001)) OTA_FAIL_TS = getItem st0 OTA_FAIL_TS"
proof -
  have e: "isInBackoff st0 300001 = (False, setItem st0 OTA_FAIL_COUNT ''0'')"
    using st0_facts by (simp add: isInBackoff_numeric)
  have g: "getItem (setItem st0 OTA_FAIL_COUNT ''0'') OTA_FAIL_TS = getItem st0 OTA_FAIL_TS"
    by (simp add: getItem_def setItem_def keys_distinct)
  show ?thesis
    by (simp add: e g new_writes_simps touches_def keys_distinct)
qed

text \<open>The theorem on the store with three failures.\<close>

theorem fail_fields_written_together_witness:
  "new_writes st0 (recordFailure st0 7) =
     [SetItem OTA_FAIL_COUNT ''4'', SetItem OTA_FAIL_TS ''7'']
   \<and> new_writes st0 (clearFailures st0) = [RemoveItem OTA_FAIL_COUNT, RemoveItem OTA_FAIL_TS]
   \<and> \<not> touches (new_writes st0 (snd (isInBackoff st0 300001))) OTA_FAIL_TS"
proof -
  note T = fail_fields_written_together[of st0 7 sh0 True FetchFailed False]
  note U = fail_fields_written_together[of st0 300001 sh0 True FetchFailed False]
  have s: "String_num (nan_add (failCount st0) (Some 1)) = ''4''" "String_num (Some 7) = ''7''"
    by (simp_all add: st0_facts nan_add_def) code_simp+
  from T U st0_facts(1) s show ?thesis by simp
qed

lemma shell_main_route:
  "fst (shell_main sh onLine now) =
     (if \<not> useRemote (ls sh) \<or> onLine = Some False \<or> fst (isInBackoff (ls sh) now)
      then FastPath else RemotePath)"
  by (simp add: shell_main_def isOnline_def split: prod.splits)

text \<open>
  Claim C1. The router takes the fast path if and only if the flag is not the string
  \<open>true\<close> (absent, another value, or a store that cannot be read), or the browser reports
  that it is off line, or \<open>isInBackoff\<close> returns true; otherwise it takes the remote path.
  The fast path navigates to the bundled entry point and leaves the frame alone; the remote
  path stays on the shell page, points the frame at the remote origin and arms the timer.
\<close>

theorem shell_main_fast_path_iff:
  "(fst (shell_main sh onLine now) = FastPath \<longleftrightarrow>
      \<not> (accessible (ls sh) \<and> getItem (ls sh) OTA_USE_REMOTE = Some ''true'')
      \<or> onLine = Some False
      \<or> fst (isInBackoff (ls sh) now))
   \<and> (fst (shell_main sh onLine now) = RemotePath \<longleftrightarrow>
        fst (shell_main sh onLine now) \<noteq> FastPath)
   \<and> (fst (shell_main sh onLine now) = FastPath \<longrightarrow>
        location (snd (shell_main sh onLine now)) = BundledApp
        \<and> frame_src (snd (shell_main sh onLine now)) = frame_src sh)
   \<and> (fst (shell_main sh onLine now) = RemotePath \<longrightarrow>
        location (snd (shell_main sh onLine now)) = location sh
        \<and> frame_src (snd (shell_main sh onLine now)) = Some REMOTE_APP_URL
        \<and> timer (snd (shell_main sh onLine now))
        \<and> \<not> settled (snd (shell_main sh onLine now)))"
proof (intro conjI)
  show "fst (shell_main sh onLine now) = FastPath \<longleftrightarrow>
      \<not> (accessible (ls sh) \<and> getItem (ls sh) OTA_USE_REMOTE = Some ''true'')
      \<or> onLine = Some False
      \<or> fst (isInBackoff (ls sh) now)"
    by (simp add: shell_main_route useRemote_def)
  show "fst (shell_main sh onLine now) = RemotePath \<longleftrightarrow>
        fst (shell_main sh onLine now) \<noteq> FastPath"
    by (cases "fst (shell_main sh onLine now)") simp_all
  show "fst (shell_main sh onLine now) = FastPath \<longrightarrow>
        location (snd (shell_main sh onLine now)) = BundledApp
        \<and> frame_src (snd (shell_main sh onLine now)) = frame_src sh"
    by (simp add: shell_main_def goToBundled_def split: prod.splits)
  show "fst (shell_main sh onLine now) = RemotePath \<longrightarrow>
        location (snd (shell_main sh onLine now)) = location sh
        \<and> frame_src (snd (shell_main sh onLine now)) = Some REMOTE_APP_URL
        \<and> timer (snd (shell_main sh onLine now))
        \<and> \<not> settled (snd (shell_main sh onLine now))"
    by (simp add: shell_main_def goToBundled_def split: prod.splits)
qed

lemma st1_facts:
  "accessible st1" "getItem st1 OTA_USE_REMOTE = Some ''true''"
  "failCount st1 = Some 0" "failTimestamp st1 = Some 0"
  by (simp_all add: st1_def getItem_def failCount_def failTimestamp_def getItem_or_def
      keys_distinct parseInt10_zero)

text \<open>The theorem with the flag set and no failure (on line, off line), and without the flag.\<close>

theorem shell_main_fast_path_iff_witness:
  "fst (shell_main sh0 (Some True) 1000) = RemotePath
   \<and> frame_src (snd (shell_main sh0 (Some True) 1000)) = Some REMOTE_APP_URL
   \<and> fst (shell_main sh0 (Some False) 1000) = FastPath
   \<and> location (snd (shell_main sh0 (Some False) 1000)) = BundledApp
   \<and> fst (shell_main (sh0\<lparr>ls := st0\<rparr>) None 1000) = FastPath"
proof -
  have b: "\<not> fst (isInBackoff st1 1000)"
    using st1_facts by (simp add: isInBackoff_numeric)
  have l: "ls sh0 = st1" by (simp add: sh0_def)
  have r: "fst (shell_main sh0 (Some True) 1000) = RemotePath"
    using shell_main_fast_path_iff[of sh0 "Some True" 1000] b st1_facts by (simp add: l)
  have f: "fst (shell_main sh0 (Some False) 1000) = FastPath"
    using shell_main_fast_path_iff[of sh0 "Some False" 1000] by simp
  have u: "getItem st0 OTA_USE_REMOTE = None"
    by (simp add: st0_def getItem_def keys_distinct)
  have g: "fst (shell_main (sh0\<lparr>ls := st0\<rparr>) None 1000) = FastPath"
    using shell_main_fast_path_iff[of "sh0\<lparr>ls := st0\<rparr>" None 1000] u by simp
  from r f g shell_main_fast_path_iff[of sh0 "Some True" 1000]
    shell_main_fast_path_iff[of sh0 "Some False" 1000]
  show ?thesis by simp
qed

lemma on_signal_settled: "settled sh \<Longrightarrow> on_signal sh e = sh"
proof -
  assume s: "settled sh"
  obtain sig now where e: "e = (sig, now)" by (cases e)
  show ?thesis using s by (cases sig) (simp_all add: e settle_def)
qed

lemma run_signals_settled: "settled sh \<Longrightarrow> run_signals sh evs = sh"
  unfolding run_signals_def by (induction evs) (simp_all add: on_signal_settled)

lemma settled_settle: "settled (settle success sh now)"
  by (simp add: settle_def Let_def goToBundled_def)

lemma run_signals_first:
  assumes "\<not> settled sh" and "timer sh"
  shows "run_signals sh ((sig, now) # rest) = settle (sig = FrameLoad) sh now"
proof -
  have "on_signal sh (sig, now) = settle (sig = FrameLoad) sh now"
    using assms by (cases sig) simp_all
  moreover have "run_signals sh ((sig, now) # rest) = run_signals (on_signal sh (sig, now)) rest"
    by (simp add: run_signals_def)
  ultimately show ?thesis by (simp add: run_signals_settled settled_settle)
qed

lemma settle_success_effect:
  assumes "\<not> settled sh"
  shows "location (settle True sh now) = location sh"
    and "ls (settle True sh now) = clearFailures (ls sh)"
    and "getItem (ls (settle True sh now)) OTA_USE_REMOTE = getItem (ls sh) OTA_USE_REMOTE"
    and "accessible (ls sh) \<Longrightarrow> getItem (ls (settle True sh now)) OTA_FAIL_COUNT = None"
    and "accessible (ls sh) \<Longrightarrow> getItem (ls (settle True sh now)) OTA_FAIL_TS = None"
  using assms
  by (simp_all add: settle_def Let_def clearFailures_def getItem_def removeItem_def keys_distinct)

lemma recordFailure_effect:
  assumes "accessible st"
  shows "failTimestamp (recordFailure st now) = Some now"
    and "failCount st = Some c \<Longrightarrow> failCount (recordFailure st now) = Some (c + 1)"
    and "getItem (recordFailure st now) OTA_USE_REMOTE = getItem st OTA_USE_REMOTE"
    and "accessible (recordFailure st now)"
  using assms
  by (simp_all add: recordFailure_def Let_def failTimestamp_def failCount_def getItem_or_def
      getItem_def setItem_def keys_distinct String_num_nonempty parseInt10_String_num nan_add_def)

lemma fail_fields_removeItem_other:
  "failCount (removeItem st OTA_USE_REMOTE) = failCount st"
  "failTimestamp (removeItem st OTA_USE_REMOTE) = failTimestamp st"
  "getItem (removeItem st k) k = None"
  by (simp_all add: failCount_def failTimestamp_def getItem_or_def getItem_def removeItem_def
      keys_distinct)

lemma settle_failure_effect:
  assumes "\<not> settled sh"
  shows "location (settle False sh now) = BundledApp"
    and "accessible (ls sh) \<Longrightarrow>
           ls (settle False sh now) = removeItem (recordFailure (ls sh) now) OTA_USE_REMOTE"
    and "\<not> accessible (ls sh) \<Longrightarrow> ls (settle False sh now) = ls sh"
  using assms
  by (simp_all add: settle_def Let_def goToBundled_def recordFailure_effect)
    (simp add: recordFailure_def)

text \<open>
  Claim C2. On the remote path (not settled, timer armed), whatever signals follow, the
  first one decides and the later ones change nothing. A load first keeps the page, removes
  both failure fields and leaves the flag; an error or the timer first navigates to the
  bundled entry point and, on a store that can be written, performs exactly the three
  writes count, timestamp, removal of the flag, after which the count read back is one
  more than before (for a count below \<open>2^53\<close>, where \<open>c + 1\<close> is exact) and the timestamp
  is the time of the signal.
\<close>

theorem settle_first_signal_decides:
  assumes "\<not> settled sh" and "timer sh"
  shows "run_signals sh ((sig, now) # rest) = settle (sig = FrameLoad) sh now
       \<and> location (settle True sh now) = location sh
       \<and> ls (settle True sh now) = clearFailures (ls sh)
       \<and> getItem (ls (settle True sh now)) OTA_USE_REMOTE = getItem (ls sh) OTA_USE_REMOTE
       \<and> (accessible (ls sh) \<longrightarrow>
            getItem (ls (settle True sh now)) OTA_FAIL_COUNT = None
            \<and> getItem (ls (settle True sh now)) OTA_FAIL_TS = None)
       \<and> location (settle False sh now) = BundledApp
       \<and> (accessible (ls sh) \<longrightarrow>
            new_writes (ls sh) (ls (settle False sh now)) =
              [SetItem OTA_FAIL_COUNT (String_num (nan_add (failCount (ls sh)) (Some 1))),
               SetItem OTA_FAIL_TS (String_num (Some now)),
               RemoveItem OTA_USE_REMOTE]
            \<and> getItem (ls (settle False sh now)) OTA_USE_REMOTE = None
            \<and> failTimestamp (ls (settle False sh now)) = Some now
            \<and> (\<forall>c. failCount (ls sh) = Some c \<and> \<bar>c\<bar> < 2 ^ 53 \<longrightarrow>
                  failCount (ls (settle False sh now)) = Some (c + 1)))"
proof -
  note s = settle_success_effect[OF assms(1), of now]
  note f = settle_failure_effect[OF assms(1), of now]
  have 1: "run_signals sh ((sig, now) # rest) = settle (sig = FrameLoad) sh now"
    by (rule run_signals_first[OF assms])
  have 2: "accessible (ls sh) \<longrightarrow>
            new_writes (ls sh) (ls (settle False sh now)) =
              [SetItem OTA_FAIL_COUNT (String_num (nan_add (failCount (ls sh)) (Some 1))),
               SetItem OTA_FAIL_TS (String_num (Some now)),
               RemoveItem OTA_USE_REMOTE]
            \<and> getItem (ls (settle False sh now)) OTA_USE_REMOTE = None
            \<and> failTimestamp (ls (settle False sh now)) = Some now
            \<and> (\<forall>c. failCount (ls sh) = Some c \<and> \<bar>c\<bar> < 2 ^ 53 \<longrightarrow>
                  failCount (ls (settle False sh now)) = Some (c + 1))"
  proof
    assume a: "accessible (ls sh)"
    have w: "new_writes (ls sh) (ls (settle False sh now)) =
              [SetItem OTA_FAIL_COUNT (String_num (nan_add (failCount (ls sh)) (Some 1))),
               SetItem OTA_FAIL_TS (String_num (Some now)),
               RemoveItem OTA_USE_REMOTE]"
      using assms(1) a by (simp add: new_writes_settle)
    from w show "new_writes (ls sh) (ls (settle False sh now)) =
              [SetItem OTA_FAIL_COUNT (String_num (nan_add (failCount (ls sh)) (Some 1))),
               SetItem OTA_FAIL_TS (String_num (Some now)),
               RemoveItem OTA_USE_REMOTE]
            \<and> getItem (ls (settle False sh now)) OTA_USE_REMOTE = None
            \<and> failTimestamp (ls (settle False sh now)) = Some now
            \<and> (\<forall>c. failCount (ls sh) = Some c \<and> \<bar>c\<bar> < 2 ^ 53 \<longrightarrow>
                  failCount (ls (settle False sh now)) = Some (c + 1))"
      using a by (simp add: f(2) fail_fields_removeItem_other recordFailure_effect)
  qed
  from 1 2 s f(1) show ?thesis by simp
qed

lemma sh_remote_eq:
  "sh_remote = sh0\<lparr>ls := st1, settled := False, timer := True,
                   frame_src := Some REMOTE_APP_URL, hosting := True\<rparr>"
proof -
  have "isInBackoff st1 1000 = (False, st1)"
    using st1_facts by (simp add: isInBackoff_numeric)
  then show ?thesis
    using st1_facts
    by (simp add: sh_remote_def shell_main_def useRemote_def isOnline_def sh0_def)
qed

text \<open>The theorem on the remote path: timer, load and error all fire; load before the timer.\<close>

theorem settle_first_signal_decides_witness:
  "run_signals sh_remote [(TimerFired, 1800), (FrameLoad, 1900), (FrameError, 2000)]
     = settle False sh_remote 1800
   \<and> location (settle False sh_remote 1800) = BundledApp
   \<and> failCount (ls (settle False sh_remote 1800)) = Some 1
   \<and> failTimestamp (ls (settle False sh_remote 1800)) = Some 1800
   \<and> getItem (ls (settle False sh_remote 1800)) OTA_USE_REMOTE = None
   \<and> run_signals sh_remote [(FrameLoad, 1100), (TimerFired, 1800)] = settle True sh_remote 1100
   \<and> location (settle True sh_remote 1100) = ShellPage"
proof -
  have h: "\<not> settled sh_remote" "timer sh_remote" "accessible (ls sh_remote)"
    "failCount (ls sh_remote) = Some 0" "location sh_remote = ShellPage"
    using st1_facts by (simp_all add: sh_remote_eq sh0_def)
  from settle_first_signal_decides[OF h(1,2), of TimerFired 1800
      "[(FrameLoad, 1900), (FrameError, 2000)]"]
    settle_first_signal_decides[OF h(1,2), of FrameLoad 1100 "[(TimerFired, 1800)]"]
    h(3,4,5)
  show ?thesis by simp
qed

section \<open>Properties: the storage bridge\<close>

lemma handleMessage_response:
  assumes "ev_source e = ShellWindow" and "response_of (ev_data e) = Some (i, d)"
  shows "handleMessage c e = settle_pending c i d"
  using assms by (cases "ev_data e") (simp_all add: handleMessage_def)

lemma handleMessage_foreign: "ev_source e \<noteq> ShellWindow \<Longrightarrow> handleMessage c e = c"
  by (simp add: handleMessage_def)

lemma pending_handleMessage:
  "pending (handleMessage c e) k = None \<or> pending (handleMessage c e) k = pending c k"
  by (cases "ev_data e")
    (auto simp: handleMessage_def settle_pending_def split: option.splits)

lemma pending_stays_absent:
  "pending c k = None \<Longrightarrow> pending (run_client c es) k = None"
proof (induction es arbitrary: c)
  case Nil
  then show ?case by (simp add: run_client_def)
next
  case (Cons e es)
  have "pending (on_message c e) k = None"
    using pending_handleMessage[of c e k] Cons.prems by (auto simp: on_message_def)
  then have "pending (run_client (on_message c e) es) k = None" by (rule Cons.IH)
  then show ?case by (simp add: run_client_def)
qed

lemma on_message_cases:
  "(resolutions (on_message c e) = resolutions c)
   \<or> (\<exists>k r d. ev_source e = ShellWindow \<and> response_of (ev_data e) = Some (Some k, d)
          \<and> pending c k = Some r
          \<and> resolutions (on_message c e) = resolutions c @ [resolve_with r d])"
  by (cases "ev_data e")
    (auto simp: on_message_def handleMessage_def settle_pending_def split: option.splits)

lemma pending_on_message:
  "pending (on_message c e) k = Some r \<Longrightarrow> pending c k = Some r"
  using pending_handleMessage[of c e k] by (auto simp: on_message_def split: if_splits)

lemma run_client_resolutions:
  "\<exists>new. resolutions (run_client c es) = resolutions c @ new
     \<and> (\<forall>x \<in> set new. \<exists>e \<in> set es. \<exists>k r d.
           ev_source e = ShellWindow \<and> response_of (ev_data e) = Some (Some k, d)
           \<and> pending c k = Some r \<and> x = resolve_with r d)"
proof (induction es arbitrary: c)
  case Nil
  show ?case by (simp add: run_client_def)
next
  case (Cons e es)
  let ?c1 = "on_message c e"
  obtain new1 where n1: "resolutions (run_client ?c1 es) = resolutions ?c1 @ new1"
    and s1: "\<forall>x \<in> set new1. \<exists>e' \<in> set es. \<exists>k r d.
           ev_source e' = ShellWindow \<and> response_of (ev_data e') = Some (Some k, d)
           \<and> pending ?c1 k = Some r \<and> x = resolve_with r d"
    using Cons.IH[of ?c1] by blast
  have s1': "\<forall>x \<in> set new1. \<exists>e' \<in> set (e # es). \<exists>k r d.
           ev_source e' = ShellWindow \<and> response_of (ev_data e') = Some (Some k, d)
           \<and> pending c k = Some r \<and> x = resolve_with r d"
  proof
    fix x assume "x \<in> set new1"
    with s1 obtain e' k r d where "e' \<in> set es" "ev_source e' = ShellWindow"
      "response_of (ev_data e') = Some (Some k, d)" "pending ?c1 k = Some r"
      "x = resolve_with r d" by blast
    moreover from this(4) have "pending c k = Some r" by (rule pending_on_message)
    ultimately show "\<exists>e' \<in> set (e # es). \<exists>k r d.
           ev_source e' = ShellWindow \<and> response_of (ev_data e') = Some (Some k, d)
           \<and> pending c k = Some r \<and> x = resolve_with r d"
      by (intro bexI[of _ e'] exI[of _ k] exI[of _ r] exI[of _ d]) simp_all
  qed
  have run: "run_client c (e # es) = run_client ?c1 es" by (simp add: run_client_def)
  from on_message_cases[of c e] show ?case
  proof
    assume "resolutions ?c1 = resolutions c"
    with n1 s1' run show ?thesis by auto
  next
    assume "\<exists>k r d. ev_source e = ShellWindow \<and> response_of (ev_data e) = Some (Some k, d)
          \<and> pending c k = Some r
          \<and> resolutions ?c1 = resolutions c @ [resolve_with r d]"
    then obtain k r d where e: "ev_source e = ShellWindow"
      "response_of (ev_data e) = Some (Some k, d)" "pending c k = Some r"
      and r: "resolutions ?c1 = resolutions c @ [resolve_with r d]" by blast
    have "resolutions (run_client c (e # es)) = resolutions c @ (resolve_with r d # new1)"
      by (simp add: run n1 r)
    moreover have "\<forall>x \<in> set (resolve_with r d # new1). \<exists>e' \<in> set (e # es). \<exists>k r d.
           ev_source e' = ShellWindow \<and> response_of (ev_data e') = Some (Some k, d)
           \<and> pending c k = Some r \<and> x = resolve_with r d"
      using s1' e by (metis list.set_intros(1) set_ConsD)
    ultimately show ?thesis by blast
  qed
qed

text \<open>
  Claim C5. For a response (a result or a set acknowledgement) that comes from the parent
  and carries the id \<open>i\<close>: if \<open>i\<close> is in the pending table, exactly its continuation is
  resolved, with the data of that response, and the entry is removed; if it is not, the
  client is unchanged. Afterwards \<open>i\<close> is not pending, the entries of all other ids are
  untouched, and a second response with the same id, at once or after any further
  messages, has no effect. Over any run of messages, every promise that gets resolved is
  resolved by a response from the parent whose id is the one under which its own
  continuation was pending, with that response's data.
\<close>

theorem response_resolves_own_request_only:
  assumes "ev_source e = ShellWindow" and "response_of (ev_data e) = Some (Some i, d)"
  shows "(\<forall>r. pending c i = Some r \<longrightarrow>
            handleMessage c e =
              c\<lparr>resolutions := resolutions c @ [resolve_with r d],
                pending := (pending c)(i := None)\<rparr>)
       \<and> (pending c i = None \<longrightarrow> handleMessage c e = c)
       \<and> pending (handleMessage c e) i = None
       \<and> (\<forall>j. j \<noteq> i \<longrightarrow> pending (handleMessage c e) j = pending c j)
       \<and> (\<forall>e'. (\<exists>d'. response_of (ev_data e') = Some (Some i, d')) \<longrightarrow>
              handleMessage (handleMessage c e) e' = handleMessage c e)
       \<and> (\<forall>es e'. (\<exists>d'. response_of (ev_data e') = Some (Some i, d')) \<longrightarrow>
              on_message (run_client (handleMessage c e) es) e'
                = run_client (handleMessage c e) es)
       \<and> (\<forall>es x. x \<in> set (drop (length (resolutions c)) (resolutions (run_client c es))) \<longrightarrow>
              (\<exists>e' \<in> set es. \<exists>k r d'.
                 ev_source e' = ShellWindow \<and> response_of (ev_data e') = Some (Some k, d')
                 \<and> pending c k = Some r \<and> x = resolve_with r d'))"
proof -
  note h = handleMessage_response[OF assms, of c]
  have gone: "pending (handleMessage c e) i = None"
    by (simp add: h settle_pending_def split: option.splits)
  have drop: "handleMessage c' e' = c'"
    if "pending c' i = None" and "response_of (ev_data e') = Some (Some i, d')"
    for c' :: "'a client" and e' d'
  proof (cases "ev_source e' = ShellWindow")
    case True
    from handleMessage_response[OF True that(2), of c'] that(1)
    show ?thesis by (simp add: settle_pending_def)
  next
    case False
    then show ?thesis by (rule handleMessage_foreign)
  qed
  have 1: "\<forall>r. pending c i = Some r \<longrightarrow>
            handleMessage c e =
              c\<lparr>resolutions := resolutions c @ [resolve_with r d],
                pending := (pending c)(i := None)\<rparr>"
    by (simp add: h settle_pending_def)
  have 2: "pending c i = None \<longrightarrow> handleMessage c e = c"
    by (simp add: h settle_pending_def)
  have 3: "\<forall>j. j \<noteq> i \<longrightarrow> pending (handleMessage c e) j = pending c j"
    by (simp add: h settle_pending_def split: option.splits)
  have 4: "\<forall>e'. (\<exists>d'. response_of (ev_data e') = Some (Some i, d')) \<longrightarrow>
              handleMessage (handleMessage c e) e' = handleMessage c e"
    using drop[OF gone] by blast
  have 5: "\<forall>es e'. (\<exists>d'. response_of (ev_data e') = Some (Some i, d')) \<longrightarrow>
              on_message (run_client (handleMessage c e) es) e'
                = run_client (handleMessage c e) es"
    using drop[OF pending_stays_absent[OF gone]] by (auto simp: on_message_def)
  have 6: "\<forall>es x. x \<in> set (drop (length (resolutions c)) (resolutions (run_client c es))) \<longrightarrow>
              (\<exists>e' \<in> set es. \<exists>k r d'.
                 ev_source e' = ShellWindow \<and> response_of (ev_data e') = Some (Some k, d')
                 \<and> pending c k = Some r \<and> x = resolve_with r d')"
  proof (intro allI impI)
    fix es x
    assume x: "x \<in> set (drop (length (resolutions c)) (resolutions (run_client c es)))"
    obtain new where n: "resolutions (run_client c es) = resolutions c @ new"
      and s: "\<forall>x \<in> set new. \<exists>e \<in> set es. \<exists>k r d.
           ev_source e = ShellWindow \<and> response_of (ev_data e) = Some (Some k, d)
           \<and> pending c k = Some r \<and> x = resolve_with r d"
      using run_client_resolutions[of c es] by blast
    from x n have "x \<in> set new" by simp
    with s show "\<exists>e' \<in> set es. \<exists>k r d'.
                 ev_source e' = ShellWindow \<and> response_of (ev_data e') = Some (Some k, d')
                 \<and> pending c k = Some r \<and> x = resolve_with r d'"
      by blast
  qed
  show ?thesis by (intro conjI; fact 1 2 gone 3 4 5 6)
qed

text \<open>The theorem with a \<open>get\<close> and a \<open>set\<close> in flight, answered out of order and twice.\<close>

theorem response_resolves_own_request_only_witness:
  "resolutions (handleMessage c_two (from_shell (StorageSetAck (Some ''id-b'')))) = [(2, SetDone)]
   \<and> pending (handleMessage c_two (from_shell (StorageSetAck (Some ''id-b'')))) ''id-a''
       = Some (GetCall 1)
   \<and> pending (handleMessage c_two (from_shell (StorageSetAck (Some ''id-b'')))) ''id-b'' = None
   \<and> handleMessage (handleMessage c_two (from_shell (StorageSetAck (Some ''id-b''))))
        (from_shell (StorageResult (Some ''id-b'') [(''app_settings'', Some False)]))
       = handleMessage c_two (from_shell (StorageSetAck (Some ''id-b'')))
   \<and> resolutions (handleMessage c_two
        (from_shell (StorageResult (Some ''id-a'') [(''app_settings'', Some False)])))
       = [(1, GotData [(''app_settings'', Some False)])]"
proof -
  have p: "pending c_two ''id-b'' = Some (SetCall 2)" "pending c_two ''id-a'' = Some (GetCall 1)"
    "resolutions c_two = []"
    by (simp_all add: c_two_def client_set_def client_get_def new_client_def)
  have s: "ev_source (from_shell m) = ShellWindow" "ev_data (from_shell m) = m" for m
    by (simp_all add: from_shell_def)
  note B = response_resolves_own_request_only[where e = "from_shell (StorageSetAck (Some ''id-b''))"
      and i = "''id-b''" and d = "[]" and c = c_two, OF s(1)]
  note A = response_resolves_own_request_only[where
      e = "from_shell (StorageResult (Some ''id-a'') [(''app_settings'', Some False)])"
      and i = "''id-a''" and d = "[(''app_settings'', Some False)]" and c = c_two, OF s(1)]
  have b1: "handleMessage c_two (from_shell (StorageSetAck (Some ''id-b''))) =
             c_two\<lparr>resolutions := resolutions c_two @ [resolve_with (SetCall 2) []],
                   pending := (pending c_two)(''id-b'' := None)\<rparr>"
    using B p(1) by (simp add: s)
  have b2: "handleMessage (handleMessage c_two (from_shell (StorageSetAck (Some ''id-b''))))
        (from_shell (StorageResult (Some ''id-b'') [(''app_settings'', Some False)]))
       = handleMessage c_two (from_shell (StorageSetAck (Some ''id-b'')))"
    using B by (simp add: s)
  have a1: "handleMessage c_two
        (from_shell (StorageResult (Some ''id-a'') [(''app_settings'', Some False)])) =
             c_two\<lparr>resolutions := resolutions c_two
                      @ [resolve_with (GetCall 1) [(''app_settings'', Some False)]],
                   pending := (pending c_two)(''id-a'' := None)\<rparr>"
    using A p(2) by (simp add: s)
  have r1: "resolutions (handleMessage c_two (from_shell (StorageSetAck (Some ''id-b''))))
              = [(2, SetDone)]"
    by (simp add: b1 p)
  have r2: "pending (handleMessage c_two (from_shell (StorageSetAck (Some ''id-b'')))) ''id-a''
              = Some (GetCall 1)"
    by (simp add: b1 p)
  have r3: "pending (handleMessage c_two (from_shell (StorageSetAck (Some ''id-b'')))) ''id-b''
              = None"
    by (simp add: b1)
  have r4: "resolutions (handleMessage c_two
        (from_shell (StorageResult (Some ''id-a'') [(''app_settings'', Some False)])))
       = [(1, GotData [(''app_settings'', Some False)])]"
    by (simp add: a1 p)
  show ?thesis by (intro conjI; fact r1 r2 r3 b2 r4)
qed

text \<open>Claim C9 on the side of the client, and what the host does check: a message whose
  source is not the parent (for the host: not the frame's window) changes nothing, and
  nothing is sent.\<close>

lemma client_drops_other_source:
  "ev_source e \<noteq> ShellWindow \<Longrightarrow> on_message c e = c"
  by (simp add: on_message_def handleMessage_def)

lemma host_drops_other_source:
  "ev_source e \<noteq> FrameContent \<Longrightarrow> host_on_message parse stringify hs e = hs"
  by (simp add: host_on_message_def host_listener_def)

text \<open>
  Claim C9 on the side of the host. The listener compares \<open>event.source\<close> with the
  frame's window and never reads \<open>event.origin\<close>, although the header of storageBridge.ts
  states that the shell validates \<open>message.origin\<close> against \<open>REMOTE_APP_URL\<close>. A request
  from the frame's window whose origin is not the remote origin is answered with the stored
  data.
\<close>

theorem host_answers_message_of_other_origin:
  "ev_origin e_other_origin \<noteq> REMOTE_APP_URL
   \<and> hosting (page_state hs0)
   \<and> outbox (host_on_message lit_parse lit_stringify hs0 e_other_origin)
       = [StorageResult (Some ''1'') [(''app_settings'', Some True)]]"
proof -
  have h: "hosting (page_state hs0)" by (simp add: hs0_def sh_remote_eq)
  have o: "ev_origin e_other_origin \<noteq> REMOTE_APP_URL"
    by (simp add: e_other_origin_def REMOTE_APP_URL_def)
  have "outbox (host_listener lit_parse lit_stringify hs0 e_other_origin)
       = [StorageResult (Some ''1'') [(''app_settings'', Some True)]]"
    by (simp add: host_listener_def e_other_origin_def hs0_def post_to_frame_def sync_get_def)
  with h o show ?thesis by (simp add: host_on_message_def)
qed

text \<open>
  The round trip through the host: on the remote path every \<open>get\<close> and \<open>set\<close> request from
  the frame's window is answered, with the id of the request; and a \<open>get\<close> of the client,
  carried to the host and its answer carried back, resolves the promise of that call with
  the host's data.
\<close>

lemma host_answers_every_request:
  assumes "hosting (page_state hs)" and "ev_source e = FrameContent"
  shows "ev_data e = StorageGet i keys \<Longrightarrow>
           \<exists>d. outbox (host_on_message parse stringify hs e) = outbox hs @ [StorageResult i d]"
    and "ev_data e = StorageSet i d \<Longrightarrow>
           outbox (host_on_message parse stringify hs e) = outbox hs @ [StorageSetAck i]"
  using assms
  by (auto simp: host_on_message_def host_listener_def post_to_frame_def split: option.splits)

lemma bridge_round_trip:
  assumes "hosting (page_state hs)"
    and "outbox (host_on_message parse stringify hs
           \<lparr>ev_source = FrameContent, ev_origin = o1, ev_data = StorageGet (Some i) keys\<rparr>)
         = outbox hs @ [answer]"
  shows "\<exists>d. answer = StorageResult (Some i) d
           \<and> resolutions (handleMessage (client_get c i keys h)
                \<lparr>ev_source = ShellWindow, ev_origin = o2, ev_data = answer\<rparr>)
             = resolutions c @ [(h, GotData d)]"
proof -
  obtain d where d: "outbox (host_on_message parse stringify hs
           \<lparr>ev_source = FrameContent, ev_origin = o1, ev_data = StorageGet (Some i) keys\<rparr>)
         = outbox hs @ [StorageResult (Some i) d]"
    using host_answers_every_request(1)[OF assms(1), of _ "Some i" keys parse stringify]
    by force
  with assms(2) have a: "answer = StorageResult (Some i) d" by simp
  have "resolutions (handleMessage (client_get c i keys h)
                \<lparr>ev_source = ShellWindow, ev_origin = o2, ev_data = answer\<rparr>)
             = resolutions c @ [(h, GotData d)]"
    by (simp add: a handleMessage_def settle_pending_def client_get_def)
  with a show ?thesis by blast
qed

section \<open>Properties: the bridge handshake and the storage strategy\<close>

lemma readyPromise_on_message:
  "\<not> readyPromise c \<Longrightarrow> \<not> (ev_source e = ShellWindow \<and> ev_data e = BridgeReady)
   \<Longrightarrow> \<not> readyPromise (on_message c e)"
  by (cases "ev_data e")
    (auto simp: on_message_def handleMessage_def settle_pending_def split: option.splits)

lemma handshake_open_step:
  assumes "handshake_open m" and "\<not> is_ready_ack ev" and "ev \<noteq> HandshakeTimeout"
  shows "handshake_open (app_step cx m ev)"
proof (cases ev)
  case (Message e)
  with assms show ?thesis
    by (auto simp: handshake_open_def Let_def readyPromise_on_message split: option.splits)
next
  case HandshakeTimeout
  with assms show ?thesis by simp
next
  case CallGetStrategy
  with assms show ?thesis
    by (auto simp: handshake_open_def getStrategy_def split: option.splits)
next
  case CallEnsureBridge
  with assms show ?thesis by (auto simp: handshake_open_def ensureBridge_def)
next
  case (CallClientGet i keys h)
  with assms show ?thesis
    by (auto simp: handshake_open_def getStorageBridgeClient_def client_get_def
        split: option.splits)
next
  case (CallClientSet i d h)
  with assms show ?thesis
    by (auto simp: handshake_open_def getStorageBridgeClient_def client_set_def
        split: option.splits)
next
  case CallDestroy
  with assms show ?thesis by (auto simp: handshake_open_def split: option.splits)
qed

lemma handshake_open_run:
  assumes "handshake_open m"
    and "\<forall>ev \<in> set evs. \<not> is_ready_ack ev \<and> ev \<noteq> HandshakeTimeout"
  shows "handshake_open (app_run cx m evs)"
  using assms unfolding app_run_def
  by (induction evs arbitrary: m) (simp_all add: handshake_open_step)

lemma downgraded_step: "downgraded m \<Longrightarrow> downgraded (app_step cx m ev)"
  by (cases ev)
    (auto simp: downgraded_def Let_def getStrategy_def ensureBridge_def
      getStorageBridgeClient_def split: option.splits)

lemma downgraded_run: "downgraded m \<Longrightarrow> downgraded (app_run cx m evs)"
  unfolding app_run_def by (induction evs arbitrary: m) (simp_all add: downgraded_step)

lemma timeout_downgrades: "handshake_open m \<Longrightarrow> downgraded (app_step cx m HandshakeTimeout)"
  by (simp add: handshake_open_def downgraded_def)

lemma ensureBridge_opens:
  assumes "bridgeReady m = None"
    and "\<forall>c. client_inst m = Some c \<longrightarrow> \<not> readyPromise c"
  shows "handshake_open (ensureBridge m)"
  using assms
  by (auto simp: handshake_open_def ensureBridge_def getStorageBridgeClient_def new_client_def
      split: option.splits)

text \<open>
  Claim C6. \<open>ensureBridge\<close> is called for the first time, on a client that has not been
  acknowledged. If the timer of \<open>waitForReady\<close> fires before the client has handled a ready
  acknowledgement from its parent, whatever else happened before, the handshake is rejected:
  \<open>ensureBridge\<close> resolves with \<open>false\<close> and the memoized strategy becomes the local
  fallback; and whatever happens afterwards (a late acknowledgement, further calls) both
  stay so.
\<close>

theorem handshake_timeout_downgrades_for_good:
  assumes "bridgeReady m = None"
    and "\<forall>c. client_inst m = Some c \<longrightarrow> \<not> readyPromise c"
    and "\<forall>ev \<in> set before. \<not> is_ready_ack ev \<and> ev \<noteq> HandshakeTimeout"
  shows "bridgeReady (app_run cx (ensureBridge m) (before @ [HandshakeTimeout] @ after))
           = Some (Resolved False)
       \<and> strategy_memo (app_run cx (ensureBridge m) (before @ [HandshakeTimeout] @ after))
           = Some Local
       \<and> fst (getStrategy (app_run cx (ensureBridge m) (before @ [HandshakeTimeout] @ after)) cx)
           = Local
       \<and> ensureBridge (app_run cx (ensureBridge m) (before @ [HandshakeTimeout] @ after))
           = app_run cx (ensureBridge m) (before @ [HandshakeTimeout] @ after)"
proof -
  let ?m1 = "app_run cx (ensureBridge m) before"
  let ?m2 = "app_step cx ?m1 HandshakeTimeout"
  have "handshake_open ?m1"
    by (rule handshake_open_run[OF ensureBridge_opens[OF assms(1,2)] assms(3)])
  then have "downgraded ?m2" by (rule timeout_downgrades)
  then have d: "downgraded (app_run cx ?m2 after)" by (rule downgraded_run)
  have "app_run cx (ensureBridge m) (before @ [HandshakeTimeout] @ after)
          = app_run cx ?m2 after"
    by (simp add: app_run_def)
  with d show ?thesis by (simp add: downgraded_def getStrategy_def ensureBridge_def)
qed

text \<open>The theorem in a frame whose strategy was resolved to the bridge: an acknowledgement
  from a window that is not the parent, the timer, then a late acknowledgement.\<close>

theorem handshake_timeout_downgrades_for_good_witness:
  "strategy_memo (ensureBridge m0) = Some Bridge
   \<and> strategy_memo
       (app_run cx_frame (ensureBridge m0)
          ([CallGetStrategy, Message (ack_from (OtherWindow 0))] @ [HandshakeTimeout]
           @ [Message (ack_from ShellWindow), CallEnsureBridge, CallGetStrategy]))
       = Some Local
   \<and> bridgeReady
       (app_run cx_frame (ensureBridge m0)
          ([CallGetStrategy, Message (ack_from (OtherWindow 0))] @ [HandshakeTimeout]
           @ [Message (ack_from ShellWindow), CallEnsureBridge, CallGetStrategy]))
       = Some (Resolved False)"
proof -
  have a: "bridgeReady m0 = None" "\<forall>c. client_inst m0 = Some c \<longrightarrow> \<not> readyPromise c"
    by (simp_all add: m0_def)
  have b: "\<forall>ev \<in> set [CallGetStrategy, Message (ack_from (OtherWindow 0))].
             \<not> is_ready_ack ev \<and> ev \<noteq> HandshakeTimeout"
    by (simp add: ack_from_def)
  have s: "strategy_memo (ensureBridge m0) = Some Bridge"
    by (simp add: m0_def ensureBridge_def getStorageBridgeClient_def)
  from handshake_timeout_downgrades_for_good[OF a b, of cx_frame
      "[Message (ack_from ShellWindow), CallEnsureBridge, CallGetStrategy]"] s
  show ?thesis by simp
qed

section \<open>Properties: PersistentStateStore\<close>

lemma load_finish_live:
  assumes "\<not> cancelled h" and "state h = x"
  shows "\<not> loading (load_finish r h)" and "isLoaded (load_finish r h)"
    and "state (load_finish r h) = (case r of ReadOk (Some v) \<Rightarrow> Some v | _ \<Rightarrow> x)"
  using assms
  by (auto simp: load_finish_def Let_def split: read_result.splits option.splits)


lemma load_read_fields:
  "state (load_read s parse st h) = state h"
  "loading (load_read s parse st h) = loading h"
  "cancelled (load_read s parse st h) = cancelled h"
  "hook_key (load_read s parse st h) = hook_key h"
  "phase (load_read s parse st h) =
     (if s = Local then Resuming (storageGet_local parse st (hook_key h)) else AwaitBackend)"
  by (cases s; simp add: load_read_def)+

lemma hook_init:
  "state (usePersistentState k iv) = iv" "loading (usePersistentState k iv)"
  "\<not> cancelled (usePersistentState k iv)" "hook_key (usePersistentState k iv) = k"
  by (simp_all add: usePersistentState_def)




lemma data_for_resolve_with:
  "data_for h [resolve_with r d] = (if r = GetCall h then Some d else None)"
  by (cases r) auto














lemma load_local_state:
  "state (load_resume (load_read Local parse st (usePersistentState k iv))) =
     (case storageGet_local parse st k of ReadOk (Some v) \<Rightarrow> Some v | _ \<Rightarrow> iv)"
proof -
  let ?h = "load_read Local parse st (usePersistentState k iv)"
  have live: "\<not> cancelled ?h" "state ?h = iv" by (simp_all add: load_read_fields hook_init)
  have p: "phase ?h = Resuming (storageGet_local parse st k)"
    by (simp add: load_read_fields hook_init)
  have "load_resume ?h = load_finish (storageGet_local parse st k) ?h"
    by (simp only: load_resume_def p load_phase.simps)
  then show ?thesis by (simp only: load_finish_live(3)[OF live])
qed

lemma load_local_hook:
  "storageGet_local parse st k = storageGet_local parse st' k \<Longrightarrow>
   load_resume (load_read Local parse st (usePersistentState k iv))
     = load_resume (load_read Local parse st' (usePersistentState k iv))"
  by (simp add: load_read_def hook_init)

text \<open>
  Claim C10. Under the local strategy, on a store that can be written, \<open>setValue(v)\<close>
  stores the serialization \<open>s\<close> of \<open>v\<close>. A fresh load of the same key then yields what
  \<open>s\<close> parses to when that is not \<open>null\<close>, hence \<open>v\<close> itself when \<open>s\<close> parses back to
  \<open>v\<close>; it yields the initial value when \<open>s\<close> parses to \<open>null\<close>, and also when the key is
  absent or holds the empty string. A stored \<open>null\<close> and an absent key leave the hook in
  the same state.
\<close>

theorem local_round_trip_null_as_absent:
  assumes "accessible st" and "stringify v = Normal (Some s)" and "s \<noteq> []"
  shows "state (fst (setValue_local stringify st h v)) = v
       \<and> getItem (snd (setValue_local stringify st h v)) (hook_key h) = Some s
       \<and> (\<forall>x. parse s = Normal (Some x) \<longrightarrow>
            state (load_resume (load_read Local parse (snd (setValue_local stringify st h v))
                     (usePersistentState (hook_key h) iv))) = Some x)
       \<and> (parse s = Normal v \<and> v \<noteq> None \<longrightarrow>
            state (load_resume (load_read Local parse (snd (setValue_local stringify st h v))
                     (usePersistentState (hook_key h) iv))) = v)
       \<and> (parse s = Normal None \<longrightarrow>
            state (load_resume (load_read Local parse (snd (setValue_local stringify st h v))
                     (usePersistentState (hook_key h) iv))) = iv)
       \<and> (\<forall>sa. accessible sa \<and> (getItem sa (hook_key h) = None \<or> getItem sa (hook_key h) = Some [])
              \<longrightarrow>
            state (load_resume (load_read Local parse sa (usePersistentState (hook_key h) iv)))
              = iv
            \<and> (parse s = Normal None \<longrightarrow>
                 load_resume (load_read Local parse (snd (setValue_local stringify st h v))
                     (usePersistentState (hook_key h) iv))
                 = load_resume (load_read Local parse sa (usePersistentState (hook_key h) iv))))"
proof -
  let ?k = "hook_key h"
  let ?st = "snd (setValue_local stringify st h v)"
  have st: "?st = setItem st ?k s"
    using assms by (simp add: setValue_local_def storageSet_local_def String_undefined_def)
  have g: "getItem ?st ?k = Some s" by (simp add: st getItem_def setItem_def)
  have acc: "accessible ?st" using assms(1) by (simp add: st setItem_def)
  have rd: "storageGet_local parse ?st ?k = (case parse s of Throw \<Rightarrow> ReadThrew | Normal w \<Rightarrow> ReadOk w)"
    using acc g assms(3) by (simp add: storageGet_local_def)
  have absent: "storageGet_local parse sa ?k = ReadOk None"
    if "accessible sa \<and> (getItem sa ?k = None \<or> getItem sa ?k = Some [])" for sa
    using that by (auto simp: storageGet_local_def)
  have 1: "state (fst (setValue_local stringify st h v)) = v"
    by (simp add: setValue_local_def)
  have 3: "\<forall>x. parse s = Normal (Some x) \<longrightarrow>
            state (load_resume (load_read Local parse ?st (usePersistentState ?k iv))) = Some x"
    by (simp add: load_local_state rd)
  have 4: "parse s = Normal v \<and> v \<noteq> None \<longrightarrow>
            state (load_resume (load_read Local parse ?st (usePersistentState ?k iv))) = v"
    using 3 by auto
  have 5: "parse s = Normal None \<longrightarrow>
            state (load_resume (load_read Local parse ?st (usePersistentState ?k iv))) = iv"
    by (simp add: load_local_state rd)
  have 6: "\<forall>sa. accessible sa \<and> (getItem sa ?k = None \<or> getItem sa ?k = Some []) \<longrightarrow>
            state (load_resume (load_read Local parse sa (usePersistentState ?k iv))) = iv
            \<and> (parse s = Normal None \<longrightarrow>
                 load_resume (load_read Local parse ?st (usePersistentState ?k iv))
                 = load_resume (load_read Local parse sa (usePersistentState ?k iv)))"
  proof (intro allI impI conjI)
    fix sa assume a: "accessible sa \<and> (getItem sa ?k = None \<or> getItem sa ?k = Some [])"
    show "state (load_resume (load_read Local parse sa (usePersistentState ?k iv))) = iv"
      by (simp add: load_local_state absent[OF a])
    assume "parse s = Normal None"
    then have "storageGet_local parse ?st ?k = storageGet_local parse sa ?k"
      by (simp add: rd absent[OF a])
    then show "load_resume (load_read Local parse ?st (usePersistentState ?k iv))
                 = load_resume (load_read Local parse sa (usePersistentState ?k iv))"
      by (rule load_local_hook)
  qed
  from 1 g 3 4 5 6 show ?thesis by blast
qed

text \<open>The theorem for \<open>true\<close> and for \<open>null\<close> on an empty store.\<close>

theorem local_round_trip_null_as_absent_witness:
  "state (load_resume (load_read Local lit_parse
            (snd (setValue_local lit_stringify st_empty
                    (usePersistentState ''app_settings'' (Some False)) (Some True)))
            (usePersistentState ''app_settings'' (Some False)))) = Some True
   \<and> state (load_resume (load_read Local lit_parse
            (snd (setValue_local lit_stringify st_empty
                    (usePersistentState ''app_settings'' (Some False)) None))
            (usePersistentState ''app_settings'' (Some False)))) = Some False
   \<and> state (load_resume (load_read Local lit_parse st_empty
            (usePersistentState ''app_settings'' (Some False)))) = Some False"
proof -
  let ?h = "usePersistentState ''app_settings'' (Some False) :: bool hook"
  have k: "hook_key ?h = ''app_settings''" by (simp add: hook_init)
  have a: "accessible st_empty" "getItem st_empty ''app_settings'' = None"
    by (simp_all add: st_empty_def getItem_def)
  have t: "lit_stringify (Some True) = Normal (Some ''true'')" "''true'' \<noteq> []"
    "lit_parse ''true'' = Normal (Some True)"
    by (simp_all add: lit_stringify_def lit_parse_def)
  have n: "lit_stringify None = Normal (Some ''null'')" "''null'' \<noteq> []"
    "lit_parse ''null'' = Normal None"
    by (simp_all add: lit_stringify_def lit_parse_def)
  note T = local_round_trip_null_as_absent[where st = st_empty and stringify = lit_stringify
      and v = "Some True" and s = "''true''" and h = ?h and parse = lit_parse
      and iv = "Some False", OF a(1) t(1,2)]
  note N = local_round_trip_null_as_absent[where st = st_empty and stringify = lit_stringify
      and v = None and s = "''null''" and h = ?h and parse = lit_parse
      and iv = "Some False", OF a(1) n(1,2)]
  from T N k a t(3) n(3) show ?thesis by simp
qed

end
